theory Spec2Isabelle
  imports Main
begin

section \<open>The semver library, as the program uses it\<close>

text \<open>
  \<^verbatim>\<open>updates.js\<close> calls the npm package \<^verbatim>\<open>semver\<close> (\<^verbatim>\<open>parse\<close>, \<^verbatim>\<open>coerce\<close>,
  \<^verbatim>\<open>diff\<close>, \<^verbatim>\<open>gt\<close>, \<^verbatim>\<open>gte\<close>, \<^verbatim>\<open>lt\<close>). A parsed version is the library's
  \<^verbatim>\<open>SemVer\<close> object without its build metadata, which no comparison reads.
  A prerelease identifier is a number or a string, as the constructor stores it:
  \<open>Num n\<close> is an identifier of digits only, below \<^verbatim>\<open>MAX_SAFE_INTEGER\<close>, and \<open>Str s\<close> is
  an identifier of letters, digits and hyphens that is not of digits only. An
  identifier of digits only from \<^verbatim>\<open>MAX_SAFE_INTEGER\<close> on, which the constructor
  keeps as a string and \<^verbatim>\<open>compareIdentifiers\<close> converts to a floating-point number,
  has no counterpart here: the catalogs are those without such a version.
\<close>

datatype ident = Num nat | Str string

record semver =
  major :: nat
  minor :: nat
  patch :: nat
  prerelease :: "ident list"

text \<open>
  What the program throws: a \<^verbatim>\<open>TypeError\<close> of the language or of the library, a
  rejected \<^verbatim>\<open>fetch\<close>, the \<^verbatim>\<open>Received ...\<close> error of \<^verbatim>\<open>get\<close>, and the \<^verbatim>\<open>data.error\<close>
  error of \<^verbatim>\<open>main\<close>.
\<close>

datatype error = TypeError | FetchError | HttpError | RegistryError

definition mk :: "nat \<Rightarrow> nat \<Rightarrow> nat \<Rightarrow> ident list \<Rightarrow> semver" where
  "mk a b c p = \<lparr>major = a, minor = b, patch = c, prerelease = p\<rparr>"

text \<open>JavaScript compares strings by code unit; identifiers are ASCII.\<close>

fun str_less :: "string \<Rightarrow> string \<Rightarrow> bool" where
  "str_less [] [] = False"
| "str_less [] (y # ys) = True"
| "str_less (x # xs) [] = False"
| "str_less (x # xs) (y # ys) =
     ((of_char x :: nat) < of_char y \<or> (x = y \<and> str_less xs ys))"

text \<open>
  \<^verbatim>\<open>compareIdentifiers\<close>: numbers before strings, numbers by value, strings by
  order. A \<open>Str\<close> is not of digits only, so the pattern \<^verbatim>\<open>/^[0-9]+$/\<close> holds of the
  \<open>Num\<close> identifiers and of no other.
\<close>

fun compareIdentifiers :: "ident \<Rightarrow> ident \<Rightarrow> int" where
  "compareIdentifiers (Num a) (Num b) = (if a = b then 0 else if a < b then - 1 else 1)"
| "compareIdentifiers (Num a) (Str b) = - 1"
| "compareIdentifiers (Str a) (Num b) = 1"
| "compareIdentifiers (Str a) (Str b) = (if a = b then 0 else if str_less a b then - 1 else 1)"

definition compareNat :: "nat \<Rightarrow> nat \<Rightarrow> int" where
  "compareNat a b = (if a = b then 0 else if a < b then - 1 else 1)"

definition compareMain :: "semver \<Rightarrow> semver \<Rightarrow> int" where
  "compareMain a b =
     (if compareNat (major a) (major b) \<noteq> 0 then compareNat (major a) (major b)
      else if compareNat (minor a) (minor b) \<noteq> 0 then compareNat (minor a) (minor b)
      else compareNat (patch a) (patch b))"

text \<open>The loop of \<^verbatim>\<open>comparePre\<close> over the two identifier lists.\<close>

fun comparePreLoop :: "ident list \<Rightarrow> ident list \<Rightarrow> int" where
  "comparePreLoop [] [] = 0"
| "comparePreLoop (x # xs) [] = 1"
| "comparePreLoop [] (y # ys) = - 1"
| "comparePreLoop (x # xs) (y # ys) =
     (if x = y then comparePreLoop xs ys else compareIdentifiers x y)"

definition comparePre :: "semver \<Rightarrow> semver \<Rightarrow> int" where
  "comparePre a b =
     (if prerelease a \<noteq> [] \<and> prerelease b = [] then - 1
      else if prerelease a = [] \<and> prerelease b \<noteq> [] then 1
      else if prerelease a = [] \<and> prerelease b = [] then 0
      else comparePreLoop (prerelease a) (prerelease b))"

definition compare :: "semver \<Rightarrow> semver \<Rightarrow> int" where
  "compare a b = (if compareMain a b \<noteq> 0 then compareMain a b else comparePre a b)"

definition gt :: "semver \<Rightarrow> semver \<Rightarrow> bool" where
  "gt a b = (compare a b > 0)"

definition gte :: "semver \<Rightarrow> semver \<Rightarrow> bool" where
  "gte a b = (compare a b \<ge> 0)"

definition lt :: "semver \<Rightarrow> semver \<Rightarrow> bool" where
  "lt a b = (compare a b < 0)"

text \<open>
  \<^verbatim>\<open>semver.diff\<close> as in the releases the repository's tests were written against
  (its \<^verbatim>\<open>patch\<close> test expects \<^verbatim>\<open>^3.0.0\<close> to become \<^verbatim>\<open>^3.0.0-2\<close>, so the class of
  \<^verbatim>\<open>3.0.0\<close> to \<^verbatim>\<open>3.0.0-2\<close> is \<^verbatim>\<open>prerelease\<close>): \<^verbatim>\<open>null\<close> for equal versions, otherwise the
  first differing component, prefixed \<^verbatim>\<open>pre\<close> when either side has a prerelease,
  and \<^verbatim>\<open>prerelease\<close> when the three numbers agree.
\<close>

definition diff :: "semver \<Rightarrow> semver \<Rightarrow> string option" where
  "diff v1 v2 =
     (if compare v1 v2 = 0 then None
      else let pre = (prerelease v1 \<noteq> [] \<or> prerelease v2 \<noteq> []);
               prefix = (if pre then ''pre'' else '''')
           in if major v1 \<noteq> major v2 then Some (prefix @ ''major'')
              else if minor v1 \<noteq> minor v2 then Some (prefix @ ''minor'')
              else if patch v1 \<noteq> patch v2 then Some (prefix @ ''patch'')
              else if pre then Some ''prerelease'' else None)"

subsection \<open>Decimal numbers in strings\<close>

definition is_digit :: "char \<Rightarrow> bool" where
  "is_digit c = (c \<in> set ''0123456789'')"

fun index_of :: "char \<Rightarrow> string \<Rightarrow> nat" where
  "index_of c [] = 0"
| "index_of c (x # xs) = (if c = x then 0 else Suc (index_of c xs))"

definition digit_val :: "char \<Rightarrow> nat" where
  "digit_val c = index_of c ''0123456789''"

definition digits_to_nat :: "string \<Rightarrow> nat" where
  "digits_to_nat s = foldl (\<lambda>n c. 10 * n + digit_val c) 0 s"

definition MAX_SAFE_INTEGER :: nat where
  "MAX_SAFE_INTEGER = 9007199254740991"

text \<open>
  The strict grammar's numeric identifier (\<^verbatim>\<open>0|[1-9]\d*\<close>), and the constructor's
  bound on its value.
\<close>

definition numeric_identifier :: "string \<Rightarrow> nat option" where
  "numeric_identifier s =
     (if s = [] \<or> \<not> list_all is_digit s then None
      else if hd s = CHR ''0'' \<and> tl s \<noteq> [] then None
      else if digits_to_nat s > MAX_SAFE_INTEGER then None
      else Some (digits_to_nat s))"

subsection \<open>\<^verbatim>\<open>semver.coerce\<close>\<close>

text \<open>
  The library's pattern is
  \<^verbatim>\<open>(^|[^\d])(\d{1,16})(?:\.(\d{1,16}))?(?:\.(\d{1,16}))?(?:$|[^\d])\<close>.
  Its first number is the leftmost complete run of at most 16 digits; the second
  and the third are each a dot and a complete run of at most 16 digits, and are
  dropped when they do not match. The three are then parsed strictly, a missing
  one as \<^verbatim>\<open>0\<close>; \<^verbatim>\<open>null\<close> is \<open>None\<close>.
\<close>

function coerce_find :: "string \<Rightarrow> (string \<times> string) option" where
  "coerce_find [] = None"
| "coerce_find (c # cs) =
     (if is_digit c
      then (if length (takeWhile is_digit (c # cs)) \<le> 16
            then Some (takeWhile is_digit (c # cs), dropWhile is_digit (c # cs))
            else coerce_find (dropWhile is_digit (c # cs)))
      else coerce_find cs)"
  by pat_completeness auto
termination
  by (relation "measure length") (auto simp: less_Suc_eq_le length_dropWhile_le)

definition coerce_part :: "string \<Rightarrow> (string \<times> string) option" where
  "coerce_part s =
     (case s of
        [] \<Rightarrow> None
      | c # cs \<Rightarrow>
          (if c = CHR ''.'' \<and> cs \<noteq> [] \<and> is_digit (hd cs)
              \<and> length (takeWhile is_digit cs) \<le> 16
           then Some (takeWhile is_digit cs, dropWhile is_digit cs)
           else None))"

definition coerce :: "string \<Rightarrow> semver option" where
  "coerce s =
     (case coerce_find s of
        None \<Rightarrow> None
      | Some (ma, r1) \<Rightarrow>
          (let (mi, r2) = (case coerce_part r1 of None \<Rightarrow> (''0'', r1) | Some (x, r) \<Rightarrow> (x, r));
               pa = (case coerce_part r1 of
                       None \<Rightarrow> ''0''
                     | Some _ \<Rightarrow> (case coerce_part r2 of None \<Rightarrow> ''0'' | Some (x, r) \<Rightarrow> x))
           in case (numeric_identifier ma, numeric_identifier mi, numeric_identifier pa) of
                (Some a, Some b, Some c) \<Rightarrow> Some (mk a b c [])
              | _ \<Rightarrow> None))"

text \<open>
  \<^verbatim>\<open>semver.coerce(parsed.version).version\<close> on a parsed version: the pattern finds the
  version's own three numbers, so the result is the version without its prerelease.
\<close>

definition coerce_version :: "semver \<Rightarrow> semver" where
  "coerce_version v = mk (major v) (minor v) (patch v) []"

subsection \<open>Printing a version\<close>

definition digit_char :: "nat \<Rightarrow> char" where
  "digit_char n = ''0123456789'' ! n"

function show_nat :: "nat \<Rightarrow> string" where
  "show_nat n = (if n < 10 then [digit_char n] else show_nat (n div 10) @ [digit_char (n mod 10)])"
  by pat_completeness auto
termination
  by (relation "measure id") auto

declare show_nat.simps [simp del]

fun show_ident :: "ident \<Rightarrow> string" where
  "show_ident (Num n) = show_nat n"
| "show_ident (Str s) = s"

fun join_dot :: "string list \<Rightarrow> string" where
  "join_dot [] = []"
| "join_dot [x] = x"
| "join_dot (x # y # ys) = x @ ''.'' @ join_dot (y # ys)"

text \<open>\<^verbatim>\<open>SemVer.format\<close>: the \<^verbatim>\<open>version\<close> field of a parsed version.\<close>

definition format :: "semver \<Rightarrow> string" where
  "format v =
     show_nat (major v) @ ''.'' @ show_nat (minor v) @ ''.'' @ show_nat (patch v)
       @ (if prerelease v = [] then [] else ''-'' @ join_dot (map show_ident (prerelease v)))"

section \<open>The range rewriter and the range tests of \<^verbatim>\<open>updates.js\<close>\<close>

text \<open>
  Both \<^verbatim>\<open>updateRange\<close> and \<^verbatim>\<open>isRangePrerelease\<close> match
  \<^verbatim>\<open>[0-9]+\.[0-9]+\.[0-9]+\<close>. A run of digits is followed by a dot only at its
  end, so each \<^verbatim>\<open>[0-9]+\<close> is the complete run. \<open>match_triple s\<close> is what is left
  of \<open>s\<close> after a match at its head.
\<close>

definition digits1 :: "string \<Rightarrow> string option" where
  "digits1 s = (if s \<noteq> [] \<and> is_digit (hd s) then Some (dropWhile is_digit s) else None)"

definition dot1 :: "string \<Rightarrow> string option" where
  "dot1 s = (case s of [] \<Rightarrow> None | c # cs \<Rightarrow> if c = CHR ''.'' then Some cs else None)"

definition match_triple :: "string \<Rightarrow> string option" where
  "match_triple s =
     (case digits1 s of None \<Rightarrow> None | Some r1 \<Rightarrow>
       (case dot1 r1 of None \<Rightarrow> None | Some r2 \<Rightarrow>
         (case digits1 r2 of None \<Rightarrow> None | Some r3 \<Rightarrow>
           (case dot1 r3 of None \<Rightarrow> None | Some r4 \<Rightarrow> digits1 r4))))"

text \<open>
  The dot of a JavaScript pattern matches every character but a line terminator.
  Strings are byte strings here, so the terminators are line feed and carriage return.
\<close>

definition line_terminator :: "char \<Rightarrow> bool" where
  "line_terminator c = (c = CHR 0x0A \<or> c = CHR 0x0D)"

text \<open>\<^verbatim>\<open>-.+\<close> at the head of \<open>s\<close>: a hyphen and every character up to the end of the line.\<close>

definition match_suffix :: "string \<Rightarrow> string option" where
  "match_suffix s =
     (case s of
        [] \<Rightarrow> None
      | c # cs \<Rightarrow>
          (if c = CHR ''-'' \<and> cs \<noteq> [] \<and> \<not> line_terminator (hd cs)
           then Some (dropWhile (\<lambda>x. \<not> line_terminator x) cs)
           else None))"

text \<open>\<^verbatim>\<open>[0-9]+\.[0-9]+\.[0-9]+(-.+)?\<close> at the head of \<open>s\<close>.\<close>

definition match_version :: "string \<Rightarrow> string option" where
  "match_version s =
     (case match_triple s of
        None \<Rightarrow> None
      | Some r \<Rightarrow> (case match_suffix r of None \<Rightarrow> Some r | Some r' \<Rightarrow> Some r'))"

lemma length_digits1: "digits1 s = Some r \<Longrightarrow> length r < length s"
proof -
  assume h: "digits1 s = Some r"
  then obtain c cs where s: "s = c # cs" and d: "is_digit c"
    by (cases s) (auto simp: digits1_def split: if_splits)
  from h s d have "r = dropWhile is_digit cs"
    by (simp add: digits1_def)
  then show ?thesis
    using s length_dropWhile_le [of is_digit cs] by simp
qed

lemma length_dot1: "dot1 s = Some r \<Longrightarrow> length r < length s"
  by (cases s) (auto simp: dot1_def split: if_splits)

lemma length_match_triple: "match_triple s = Some r \<Longrightarrow> length r < length s"
  unfolding match_triple_def
  by (auto split: option.splits dest!: length_digits1 length_dot1)

lemma length_match_suffix: "match_suffix s = Some r \<Longrightarrow> length r < length s"
proof -
  assume h: "match_suffix s = Some r"
  then obtain c cs where s: "s = c # cs"
    by (cases s) (auto simp: match_suffix_def)
  from h s have "r = dropWhile (\<lambda>x. \<not> line_terminator x) cs"
    by (auto simp: match_suffix_def split: if_splits)
  then show ?thesis
    using s length_dropWhile_le [of "\<lambda>x. \<not> line_terminator x" cs] by simp
qed

lemma length_match_version: "match_version s = Some r \<Longrightarrow> length r < length s"
  unfolding match_version_def
  by (auto split: option.splits dest!: length_match_triple length_match_suffix)

text \<open>
  \<^verbatim>\<open>range.replace(/[0-9]+\.[0-9]+\.[0-9]+(-.+)?/g, version)\<close>: every match, leftmost
  first, is replaced by \<open>version\<close>, and the search goes on after the match.
  A version has no \<^verbatim>\<open>$\<close>, so the replacement is taken as it is.
\<close>

function updateRange :: "string \<Rightarrow> string \<Rightarrow> string" where
  "updateRange [] version = []"
| "updateRange (c # cs) version =
     (case match_version (c # cs) of
        Some rest \<Rightarrow> version @ updateRange rest version
      | None \<Rightarrow> c # updateRange cs version)"
  by pat_completeness auto
termination
  by (relation "measure (\<lambda>(r, v). length r)") (auto dest: length_match_version)

text \<open>\<^verbatim>\<open>/[0-9]+\.[0-9]+\.[0-9]+-.+/.test(range)\<close>.\<close>

fun isRangePrerelease :: "string \<Rightarrow> bool" where
  "isRangePrerelease [] = False"
| "isRangePrerelease (c # cs) =
     ((case match_triple (c # cs) of
         None \<Rightarrow> False
       | Some r \<Rightarrow> match_suffix r \<noteq> None)
      \<or> isRangePrerelease cs)"

definition isVersionPrerelease :: "semver \<Rightarrow> bool" where
  "isVersionPrerelease v = (prerelease v \<noteq> [])"

text \<open>\<^verbatim>\<open>rangeToVersion\<close>: the \<^verbatim>\<open>TypeError\<close> of \<^verbatim>\<open>null.version\<close> is caught, \<^verbatim>\<open>null\<close> is returned.\<close>

definition rangeToVersion :: "string \<Rightarrow> semver option" where
  "rangeToVersion r = coerce r"

section \<open>The resolution engine\<close>

text \<open>
  The registry's answer for one package. \<open>versions\<close> holds the keys of
  \<^verbatim>\<open>data.versions\<close> that pass \<^verbatim>\<open>semver.valid\<close>, in key order, each parsed and with
  \<^verbatim>\<open>new Date(data.time[version]).getTime()\<close> beside it (\<open>None\<close> is \<^verbatim>\<open>NaN\<close>).
  \<open>has_time\<close> is \<^verbatim>\<open>"time" in data\<close>, \<open>latest\<close> is \<^verbatim>\<open>data["dist-tags"].latest\<close>,
  a valid version, parsed as well.

  The options of \<^verbatim>\<open>findNewVersion\<close>; \<open>rangeStr\<close> is \<^verbatim>\<open>opts.range\<close>.
\<close>

record data =
  name :: string
  versions :: "(semver \<times> int option) list"
  has_time :: bool
  latest :: semver

record opts =
  usePre :: bool
  useRel :: bool
  useGreatest :: bool
  semvers :: "string list"
  rangeStr :: string

text \<open>
  The \<^verbatim>\<open>usePre\<close> of \<^verbatim>\<open>findVersion\<close> and its class list, pushed to in the source's
  order.
\<close>

definition usePre_of :: "opts \<Rightarrow> bool" where
  "usePre_of opt = (isRangePrerelease (rangeStr opt) \<or> usePre opt)"

definition accepted :: "opts \<Rightarrow> string list" where
  "accepted opt =
     (if usePre_of opt
      then semvers opt @ [''prerelease'']
           @ (if ''patch'' \<in> set (semvers opt) then [''prepatch''] else [])
           @ (if ''minor'' \<in> set (semvers opt) then [''preminor''] else [])
           @ (if ''major'' \<in> set (semvers opt) then [''premajor''] else [])
      else semvers opt)"

text \<open>
  One turn of the loop of \<^verbatim>\<open>findVersion\<close> on the state \<open>(tempVersion, tempDate)\<close>.
  \<^verbatim>\<open>semver.diff\<close> throws a \<^verbatim>\<open>TypeError\<close> on a \<^verbatim>\<open>null\<close> first argument.
\<close>

definition findVersion_step ::
  "data \<Rightarrow> opts \<Rightarrow> semver option \<times> int \<Rightarrow> semver \<times> int option \<Rightarrow> error + (semver option \<times> int)"
where
  "findVersion_step d opt st entry =
     (let (tempVersion, tempDate) = st; (parsed, time) = entry in
      if prerelease parsed \<noteq> [] \<and> (\<not> usePre_of opt \<or> useRel opt) then Inr st
      else case tempVersion of
        None \<Rightarrow> Inl TypeError
      | Some tv \<Rightarrow>
          (case diff tv parsed of
             None \<Rightarrow> Inr st
           | Some dc \<Rightarrow>
               if dc \<notin> set (accepted opt) then Inr st
               else if useGreatest opt \<or> \<not> has_time d
               then (if gte (coerce_version parsed) tv then Inr (Some parsed, tempDate) else Inr st)
               else (case time of
                       None \<Rightarrow> Inr st
                     | Some date \<Rightarrow>
                         if date \<ge> 0 \<and> date > tempDate then Inr (Some parsed, date) else Inr st)))"

fun findVersion_loop ::
  "data \<Rightarrow> opts \<Rightarrow> (semver \<times> int option) list \<Rightarrow> semver option \<times> int \<Rightarrow> error + (semver option \<times> int)"
where
  "findVersion_loop d opt [] st = Inr st"
| "findVersion_loop d opt (e # es) st =
     (case findVersion_step d opt st e of
        Inl err \<Rightarrow> Inl err
      | Inr st' \<Rightarrow> findVersion_loop d opt es st')"

definition findVersion :: "data \<Rightarrow> (semver \<times> int option) list \<Rightarrow> opts \<Rightarrow> error + semver option" where
  "findVersion d vs opt =
     (case findVersion_loop d opt vs (rangeToVersion (rangeStr opt), 0) of
        Inl err \<Rightarrow> Inl err
      | Inr (tempVersion, tempDate) \<Rightarrow> Inr tempVersion)"

text \<open>
  The command-line values of \<^verbatim>\<open>parseMixedArg\<close>: \<^verbatim>\<open>true\<close>, \<^verbatim>\<open>false\<close> or a list of
  package names.
\<close>

datatype mixed = Flag bool | Names "string list"

fun applies :: "mixed \<Rightarrow> string \<Rightarrow> bool" where
  "applies (Flag b) n = b"
| "applies (Names ns) n = (n \<in> set ns)"

text \<open>What \<^verbatim>\<open>findNewVersion\<close> returns: \<^verbatim>\<open>"*"\<close>, a version, or \<^verbatim>\<open>null\<close> (\<open>None\<close>).\<close>

datatype newver = Wildcard | Ver semver

definition strip_pre :: "string \<Rightarrow> string" where
  "strip_pre s = (if take 3 s = ''pre'' then drop 3 s else s)"

text \<open>
  The test on the latest tag:
  \<^verbatim>\<open>diff && diff !== "prerelease" && !opts.semvers.includes(diff.replace(/^pre/, ""))\<close>.
\<close>

definition tagOutsideSemvers :: "opts \<Rightarrow> semver \<Rightarrow> semver \<Rightarrow> bool" where
  "tagOutsideSemvers opt oldVersion latestTag =
     (case diff oldVersion latestTag of
        None \<Rightarrow> False
      | Some dc \<Rightarrow> dc \<noteq> ''prerelease'' \<and> strip_pre dc \<notin> set (semvers opt))"

text \<open>
  \<^verbatim>\<open>semver.coerce(opts.range).version\<close> throws a \<^verbatim>\<open>TypeError\<close> when the coercion is
  \<^verbatim>\<open>null\<close>, and so does \<^verbatim>\<open>semver.gt\<close> on a \<^verbatim>\<open>null\<close> version.
\<close>

definition findNewVersion :: "mixed \<Rightarrow> data \<Rightarrow> opts \<Rightarrow> error + newver option" where
  "findNewVersion allowDowngrade d opt =
     (if rangeStr opt = ''*'' then Inr (Some Wildcard)
      else case findVersion d (versions d) opt of
        Inl err \<Rightarrow> Inl err
      | Inr version \<Rightarrow>
          if useGreatest opt then Inr (map_option Ver version)
          else (case coerce (rangeStr opt) of
                  None \<Rightarrow> Inl TypeError
                | Some oldVersion \<Rightarrow>
                   (case version of
                      None \<Rightarrow> Inl TypeError
                    | Some v \<Rightarrow>
                       (let latestTag = latest d;
                            oldIsPre = isRangePrerelease (rangeStr opt);
                            newIsPre = isVersionPrerelease v;
                            latestIsPre = isVersionPrerelease latestTag;
                            isGreater = gt v oldVersion
                        in if (\<not> useRel opt \<and> usePre opt) \<or> (oldIsPre \<and> newIsPre) then Inr (Some (Ver v))
                           else if useRel opt \<and> \<not> isGreater \<and> oldIsPre \<and> \<not> newIsPre then Inr (Some (Ver v))
                           else if oldIsPre \<and> \<not> newIsPre \<and> isGreater then Inr (Some (Ver v))
                           else if oldIsPre \<and> \<not> newIsPre \<and> \<not> isGreater then Inr None
                           else if tagOutsideSemvers opt oldVersion latestTag then Inr (Some (Ver v))
                           else if useRel opt \<and> isVersionPrerelease latestTag then Inr (Some (Ver v))
                           else if lt latestTag oldVersion \<and> \<not> latestIsPre
                           then (if applies allowDowngrade (name d)
                                 then Inr (Some (Ver latestTag)) else Inr None)
                           else Inr (Some (Ver latestTag))))))"

subsection \<open>One dependency in \<^verbatim>\<open>main\<close>\<close>

text \<open>The class list \<^verbatim>\<open>main\<close> builds from \<^verbatim>\<open>--patch\<close> and \<^verbatim>\<open>--minor\<close>.\<close>

definition semvers_of :: "mixed \<Rightarrow> mixed \<Rightarrow> string \<Rightarrow> string list" where
  "semvers_of patchArg minorArg n =
     (if applies patchArg n then [''patch'']
      else if applies minorArg n then [''patch'', ''minor'']
      else [''patch'', ''minor'', ''major''])"

text \<open>The replacement text of \<^verbatim>\<open>updateRange(oldRange, newVersion)\<close>; \<^verbatim>\<open>null\<close> prints as \<^verbatim>\<open>null\<close>.\<close>

fun newver_string :: "newver option \<Rightarrow> string" where
  "newver_string None = ''null''"
| "newver_string (Some Wildcard) = ''*''"
| "newver_string (Some (Ver v)) = format v"

text \<open>
  The body of the loop of \<^verbatim>\<open>main\<close> for one dependency: \<open>None\<close> when the entry is
  deleted from \<^verbatim>\<open>deps\<close>, the new range otherwise.
\<close>

definition resolve :: "mixed \<Rightarrow> data \<Rightarrow> opts \<Rightarrow> error + string option" where
  "resolve allowDowngrade d opt =
     (case findNewVersion allowDowngrade d opt of
        Inl err \<Rightarrow> Inl err
      | Inr newVersion \<Rightarrow>
          (let newRange = updateRange (rangeStr opt) (newver_string newVersion)
           in if newVersion = None \<or> rangeStr opt = newRange then Inr None
              else Inr (Some newRange)))"

section \<open>The manifest patcher\<close>

text \<open>
  \<^verbatim>\<open>esc\<close> puts a backslash before every character of
  \<^verbatim>\<open>[|\\{}()[\]^$+*?.-]\<close>.
\<close>

definition backslash :: char where
  "backslash = CHR 0x5C"

definition metachars :: string where
  "metachars = backslash # ''|{}()[]^$+*?.-''"

definition esc :: "string \<Rightarrow> string" where
  "esc str = concat (map (\<lambda>c. if c \<in> set metachars then [backslash, c] else [c]) str)"

text \<open>
  The part of the pattern syntax that \<^verbatim>\<open>updatePackageJson\<close> uses: an escaped
  metacharacter or an ordinary character stands for itself, and \<^verbatim>\<open>+\<close> after one
  repeats it once or more. \<open>None\<close> is a source outside this part.
\<close>

datatype item = C char | Q

datatype atom = Lit char | Plus char

fun read_items :: "string \<Rightarrow> item list option" where
  "read_items [] = Some []"
| "read_items [c] =
     (if c = CHR ''+'' then Some [Q]
      else if c \<in> set metachars then None else Some [C c])"
| "read_items (c # x # xs) =
     (if c = backslash
      then (if x \<in> set metachars then map_option ((#) (C x)) (read_items xs) else None)
      else if c = CHR ''+'' then map_option ((#) Q) (read_items (x # xs))
      else if c \<in> set metachars then None
      else map_option ((#) (C c)) (read_items (x # xs)))"

fun atoms :: "item list \<Rightarrow> atom list option" where
  "atoms [] = Some []"
| "atoms (Q # r) = None"
| "atoms (C c # Q # r) = map_option ((#) (Plus c)) (atoms r)"
| "atoms (C c # r) = map_option ((#) (Lit c)) (atoms r)"

definition read_regex :: "string \<Rightarrow> atom list option" where
  "read_regex src = (case read_items src of None \<Rightarrow> None | Some its \<Rightarrow> atoms its)"

text \<open>
  A match at the head of the text; the result is the text after it. \<^verbatim>\<open>c+\<close> takes
  every \<open>c\<close> there is, which is the pattern's match when the atom after it does
  not match \<open>c\<close>, as in the patcher's pattern.
\<close>

fun match_atoms :: "atom list \<Rightarrow> string \<Rightarrow> string option" where
  "match_atoms [] s = Some s"
| "match_atoms (Lit c # as) s =
     (case s of [] \<Rightarrow> None | x # xs \<Rightarrow> if x = c then match_atoms as xs else None)"
| "match_atoms (Plus c # as) s =
     (case s of
        [] \<Rightarrow> None
      | x # xs \<Rightarrow> if x = c then match_atoms as (dropWhile (\<lambda>y. y = c) xs) else None)"

text \<open>
  The substitution of a replacement string for one match, for a pattern with no
  capture group: \<^verbatim>\<open>$$\<close> gives a dollar sign, \<^verbatim>\<open>$&\<close> the matched text, \<^verbatim>\<open>$`\<close> the text
  before the match and \<^verbatim>\<open>$'\<close> the text after it; any other character, a dollar sign
  before a digit or \<^verbatim>\<open><\<close> included, stands for itself.
\<close>

fun expand :: "string \<Rightarrow> string \<Rightarrow> string \<Rightarrow> string \<Rightarrow> string" where
  "expand [] matched before after = []"
| "expand [c] matched before after = [c]"
| "expand (c # x # t) matched before after =
     (if c = CHR ''$'' then
        (if x = CHR ''$'' then CHR ''$'' # expand t matched before after
         else if x = CHR ''&'' then matched @ expand t matched before after
         else if x = CHR 0x60 then before @ expand t matched before after
         else if x = CHR 0x27 then after @ expand t matched before after
         else c # expand (x # t) matched before after)
      else c # expand (x # t) matched before after)"

text \<open>
  \<^verbatim>\<open>str.replace(re, replacement)\<close> with the \<^verbatim>\<open>g\<close> flag. \<open>before\<close> is the text already
  passed, which \<^verbatim>\<open>$`\<close> refers to. After an empty match the next character is copied
  and the search goes on behind it; an empty match at the end of the text is
  replaced too.
\<close>

function regex_replace :: "atom list \<Rightarrow> string \<Rightarrow> string \<Rightarrow> string \<Rightarrow> string" where
  "regex_replace pat rep before [] =
     (case match_atoms pat [] of
        None \<Rightarrow> []
      | Some rest \<Rightarrow> expand rep [] before [])"
| "regex_replace pat rep before (c # cs) =
     (case match_atoms pat (c # cs) of
        None \<Rightarrow> c # regex_replace pat rep (before @ [c]) cs
      | Some rest \<Rightarrow>
          if length rest < length (c # cs)
          then (let matched = take (length (c # cs) - length rest) (c # cs)
                in expand rep matched before rest
                     @ regex_replace pat rep (before @ matched) rest)
          else expand rep [] before (c # cs) @ c # regex_replace pat rep (before @ [c]) cs)"
  by pat_completeness auto
termination
  by (relation "measure (\<lambda>(pat, rep, before, s). length s)") auto

text \<open>
  One entry of \<^verbatim>\<open>deps\<close>: its key is the section and the name, its value holds the old
  and the new range.
\<close>

record dep =
  dtype :: string
  dname :: string
  old :: string
  new :: string

definition pattern_source :: "dep \<Rightarrow> string" where
  \<open>pattern_source x = ''"'' @ esc (dname x) @ ''": +"'' @ esc (old x) @ ''"''\<close>

definition replacement :: "dep \<Rightarrow> string" where
  \<open>replacement x = ''"'' @ dname x @ ''": "'' @ new x @ ''"''\<close>

fun updatePackageJson :: "dep list \<Rightarrow> string \<Rightarrow> string" where
  "updatePackageJson [] newPkgStr = newPkgStr"
| "updatePackageJson (x # xs) newPkgStr =
     updatePackageJson xs
       (case read_regex (pattern_source x) of
          None \<Rightarrow> newPkgStr
        | Some re \<Rightarrow> regex_replace re (replacement x) [] newPkgStr)"

section \<open>Fetching the catalogs\<close>

text \<open>
  The answer of the registry: \<^verbatim>\<open>res.ok\<close>, \<^verbatim>\<open>res.status\<close>, \<^verbatim>\<open>res.statusText\<close> and the
  document of \<^verbatim>\<open>res.json()\<close>, which is a package or carries an \<^verbatim>\<open>error\<close> field. A
  \<^verbatim>\<open>fetch\<close> rejects or resolves to an answer; the network gives one outcome for a
  registry and a package name.
\<close>

datatype payload = Package data | ErrorBody string

record response =
  ok :: bool
  status :: nat
  statusText :: string
  json :: payload

datatype outcome = Rejects | Resolves response

type_synonym network = "string \<Rightarrow> string \<Rightarrow> outcome"

definition defaultRegistry :: string where
  "defaultRegistry = ''https://registry.npmjs.org''"

text \<open>
  The retry of \<^verbatim>\<open>get\<close> on the default registry; its \<^verbatim>\<open>await\<close> is not in a \<^verbatim>\<open>try\<close>.
  \<open>Inr None\<close> is the \<^verbatim>\<open>undefined\<close> that \<^verbatim>\<open>get\<close> returns when it falls off its end.
\<close>

definition get_retry ::
  "network \<Rightarrow> string \<Rightarrow> string \<Rightarrow> string \<Rightarrow> error + (payload \<times> string \<times> string) option"
where
  "get_retry net n type registry =
     (if registry \<noteq> defaultRegistry
      then (case net defaultRegistry n of
              Rejects \<Rightarrow> Inl FetchError
            | Resolves res \<Rightarrow>
                if ok res then Inr (Some (json res, type, registry))
                else if status res \<noteq> 0 \<and> statusText res \<noteq> [] then Inl HttpError
                else Inr None)
      else Inr None)"

text \<open>
  \<^verbatim>\<open>get\<close>, with the registry that \<^verbatim>\<open>getAuthAndRegistry\<close> chose for the package.
\<close>

definition get ::
  "network \<Rightarrow> string \<Rightarrow> string \<Rightarrow> string \<Rightarrow> error + (payload \<times> string \<times> string) option"
where
  "get net n type registry =
     (case net registry n of
        Rejects \<Rightarrow>
          if registry = defaultRegistry then Inl FetchError else get_retry net n type registry
      | Resolves res \<Rightarrow>
          if ok res then Inr (Some (json res, type, registry))
          else if status res \<noteq> 0 \<and> statusText res \<noteq> [] \<and> registry = defaultRegistry
          then Inl HttpError
          else get_retry net n type registry)"

text \<open>
  \<^verbatim>\<open>Promise.all\<close>: every value, or a rejection when one promise rejects. Which
  rejection it is depends on time; here it is the first of the list.
\<close>

fun promise_all :: "(error + 'a) list \<Rightarrow> error + 'a list" where
  "promise_all [] = Inr []"
| "promise_all (Inl e # ps) = Inl e"
| "promise_all (Inr x # ps) = (case promise_all ps of Inl e \<Rightarrow> Inl e | Inr xs \<Rightarrow> Inr (x # xs))"

text \<open>The command-line values \<^verbatim>\<open>main\<close> reads.\<close>

record flags =
  argGreatest :: mixed
  argPrerelease :: mixed
  argRelease :: mixed
  argPatch :: mixed
  argMinor :: mixed
  argAllowDowngrade :: mixed

text \<open>
  \<^verbatim>\<open>deps\<close> maps a key, the section and the name, to the old range; its keys are
  distinct. One turn of the first loop of \<^verbatim>\<open>main\<close> gives the key and, unless the
  entry is to be deleted, the new range. Destructuring \<^verbatim>\<open>undefined\<close> and reading
  \<^verbatim>\<open>deps[key].old\<close> for a key that is not there, or not there any more, throw a
  \<^verbatim>\<open>TypeError\<close>.
\<close>

type_synonym deps = "((string \<times> string) \<times> string) list"

definition main_step ::
  "flags \<Rightarrow> deps \<Rightarrow> (payload \<times> string \<times> string) option
     \<Rightarrow> error + ((string \<times> string) \<times> string option)"
where
  "main_step fl ds entry =
     (case entry of
        None \<Rightarrow> Inl TypeError
      | Some (doc, type, registry) \<Rightarrow>
          (case doc of
             ErrorBody msg \<Rightarrow> Inl RegistryError
           | Package d \<Rightarrow>
               (case map_of ds (type, name d) of
                  None \<Rightarrow> Inl TypeError
                | Some oldRange \<Rightarrow>
                    (case resolve (argAllowDowngrade fl) d
                            \<lparr>usePre = applies (argPrerelease fl) (name d),
                             useRel = applies (argRelease fl) (name d),
                             useGreatest = applies (argGreatest fl) (name d),
                             semvers = semvers_of (argPatch fl) (argMinor fl) (name d),
                             rangeStr = oldRange\<rparr> of
                       Inl err \<Rightarrow> Inl err
                     | Inr newRange \<Rightarrow> Inr ((type, name d), newRange)))))"

text \<open>
  \<^verbatim>\<open>deps\<close> while the loop runs: each key with its old range and, once the loop has
  set it, its new range. The loop works on \<^verbatim>\<open>deps\<close> itself: \<^verbatim>\<open>delete deps[key]\<close> takes
  the entry out for the turns that follow, \<^verbatim>\<open>deps[key].new = newRange\<close> keeps it in
  its place.
\<close>

type_synonym results = "((string \<times> string) \<times> string \<times> string option) list"

definition old_ranges :: "results \<Rightarrow> deps" where
  "old_ranges st = map (\<lambda>(key, oldRange, newRange). (key, oldRange)) st"

definition delete_key :: "string \<times> string \<Rightarrow> results \<Rightarrow> results" where
  "delete_key key st = filter (\<lambda>(k, oldRange, newRange). k \<noteq> key) st"

definition set_new :: "string \<times> string \<Rightarrow> string \<Rightarrow> results \<Rightarrow> results" where
  "set_new key r st =
     map (\<lambda>(k, oldRange, newRange). if k = key then (k, oldRange, Some r) else (k, oldRange, newRange)) st"

fun main_loop ::
  "flags \<Rightarrow> results \<Rightarrow> (payload \<times> string \<times> string) option list \<Rightarrow> error + results"
where
  "main_loop fl st [] = Inr st"
| "main_loop fl st (entry # es) =
     (case main_step fl (old_ranges st) entry of
        Inl err \<Rightarrow> Inl err
      | Inr (key, newRange) \<Rightarrow>
          main_loop fl
            (case newRange of None \<Rightarrow> delete_key key st | Some r \<Rightarrow> set_new key r st) es)"

text \<open>
  \<^verbatim>\<open>main\<close> up to the end of its first loop: the dependencies left in \<^verbatim>\<open>deps\<close> with
  their new ranges, or the error that \<^verbatim>\<open>main().catch(finish)\<close> reports instead of
  any result.
\<close>

definition main ::
  "network \<Rightarrow> (string \<Rightarrow> string) \<Rightarrow> flags \<Rightarrow> deps \<Rightarrow> error + results"
where
  "main net registry_of fl ds =
     (case promise_all (map (\<lambda>((type, n), oldRange). get net n type (registry_of n)) ds) of
        Inl err \<Rightarrow> Inl err
      | Inr dati \<Rightarrow> main_loop fl (map (\<lambda>(key, oldRange). (key, oldRange, None)) ds) dati)"

section \<open>Predicates of the properties\<close>

text \<open>The three class lists \<^verbatim>\<open>main\<close> can pass as \<^verbatim>\<open>opts.semvers\<close>.\<close>

definition ceiling :: "string list \<Rightarrow> bool" where
  "ceiling S = (S = [''patch''] \<or> S = [''patch'', ''minor''] \<or> S = [''patch'', ''minor'', ''major''])"

text \<open>
  Two versions agree on the components above the ceiling: on major and minor under
  the patch ceiling, on major under the minor ceiling.
\<close>

definition within :: "string list \<Rightarrow> semver \<Rightarrow> semver \<Rightarrow> bool" where
  "within S a b =
     ((''major'' \<in> set S \<or> major a = major b) \<and> (''minor'' \<in> set S \<or> minor a = minor b))"

text \<open>What the loop of \<^verbatim>\<open>findVersion\<close> keeps true of \<^verbatim>\<open>tempVersion\<close>.\<close>

definition kept :: "opts \<Rightarrow> semver \<Rightarrow> semver \<Rightarrow> bool" where
  "kept opt base tv =
     (within (semvers opt) base tv \<and> (usePre_of opt \<or> prerelease tv = []))"

text \<open>
  A catalog version qualifies when it passes the prerelease filter of \<^verbatim>\<open>findVersion\<close>
  and its diff class from the base version is in the accepted list.
\<close>

definition passes_filter :: "opts \<Rightarrow> semver \<Rightarrow> bool" where
  "passes_filter opt w = (\<not> (prerelease w \<noteq> [] \<and> (\<not> usePre_of opt \<or> useRel opt)))"

definition qualifies :: "opts \<Rightarrow> semver \<Rightarrow> semver \<Rightarrow> bool" where
  "qualifies opt base w =
     (passes_filter opt w \<and> (\<exists>dc. diff base w = Some dc \<and> dc \<in> set (accepted opt)))"

text \<open>Some position of the range matches \<^verbatim>\<open>[0-9]+\.[0-9]+\.[0-9]+(-.+)?\<close>.\<close>

fun has_version :: "string \<Rightarrow> bool" where
  "has_version [] = False"
| "has_version (c # cs) = (match_version (c # cs) \<noteq> None \<or> has_version cs)"

text \<open>
  What is searched on after a match that ends in the three numbers followed by \<open>s\<close>:
  \<open>s\<close> itself, or the next line of \<open>s\<close> when \<^verbatim>\<open>-.+\<close> matches at its head.
\<close>

definition after_version :: "string \<Rightarrow> string" where
  "after_version s = (case match_suffix s of None \<Rightarrow> s | Some s' \<Rightarrow> s')"

text \<open>
  What the \<^verbatim>\<open>SemVer\<close> constructor checks of the three numbers of a version it parses:
  none is above \<^verbatim>\<open>MAX_SAFE_INTEGER\<close>.
\<close>

definition valid_version :: "semver \<Rightarrow> bool" where
  "valid_version v =
     (major v \<le> MAX_SAFE_INTEGER \<and> minor v \<le> MAX_SAFE_INTEGER \<and> patch v \<le> MAX_SAFE_INTEGER)"

text \<open>
  The pattern that the escaped source stands for: the quoted name, a colon, one or
  more spaces and the quoted old range, character by character.
\<close>

definition field_pattern :: "string \<Rightarrow> string \<Rightarrow> atom list" where
  "field_pattern n ov =
     Lit (CHR 0x22) # map Lit n
       @ [Lit (CHR 0x22), Lit (CHR '':''), Plus (CHR '' ''), Lit (CHR 0x22)]
       @ map Lit ov @ [Lit (CHR 0x22)]"

text \<open>No match of the pattern starts in \<open>a\<close>, when \<open>rest\<close> follows it.\<close>

fun no_match_before :: "atom list \<Rightarrow> string \<Rightarrow> string \<Rightarrow> bool" where
  "no_match_before pat [] rest = True"
| "no_match_before pat (c # cs) rest =
     (match_atoms pat (c # cs @ rest) = None \<and> no_match_before pat cs rest)"

text \<open>The text of a field in the manifest: the name, a colon, spaces, the old range.\<close>

definition field_text :: "string \<Rightarrow> nat \<Rightarrow> string \<Rightarrow> string" where
  "field_text n k ov =
     CHR 0x22 # n @ [CHR 0x22, CHR '':''] @ replicate (Suc k) (CHR '' '') @ CHR 0x22 # ov @ [CHR 0x22]"

text \<open>Some position of the text matches the pattern.\<close>

fun has_match :: "atom list \<Rightarrow> string \<Rightarrow> bool" where
  "has_match pat [] = (match_atoms pat [] \<noteq> None)"
| "has_match pat (c # cs) = (match_atoms pat (c # cs) \<noteq> None \<or> has_match pat cs)"

text \<open>A fetch that succeeded, and one that \<^verbatim>\<open>get\<close> turns into an error.\<close>

definition succeeded :: "outcome \<Rightarrow> bool" where
  "succeeded oc = (case oc of Rejects \<Rightarrow> False | Resolves res \<Rightarrow> ok res)"

definition refused :: "outcome \<Rightarrow> bool" where
  "refused oc =
     (case oc of
        Rejects \<Rightarrow> True
      | Resolves res \<Rightarrow> \<not> ok res \<and> status res \<noteq> 0 \<and> statusText res \<noteq> [])"

section \<open>Concrete catalogs, options and manifests\<close>

text \<open>
  Small inputs in the shape of the registry answers and of the manifest that the
  repository's tests use: catalogs with their publish times and latest tag, the
  options without any flag, one entry of \<^verbatim>\<open>deps\<close>, and a network on which only one
  package can be fetched.
\<close>

definition gulp :: data where
  "gulp = \<lparr>name = ''gulp-sourcemaps'',
            versions = [(mk 2 0 1 [], Some 10), (mk 2 6 5 [], Some 20)],
            has_time = True, latest = mk 2 6 5 []\<rparr>"

definition plain_opts :: "string \<Rightarrow> opts" where
  "plain_opts r = \<lparr>usePre = False, useRel = False, useGreatest = False,
                    semvers = [''patch'', ''minor'', ''major''], rangeStr = r\<rparr>"

definition svgstore :: data where
  "svgstore = \<lparr>name = ''svgstore'',
                versions = [(mk 2 0 3 [], Some 10), (mk 3 0 0 [Num 0], Some 20),
                            (mk 3 0 0 [Num 2], Some 30)],
                has_time = True, latest = mk 3 0 0 [Num 2]\<rparr>"

definition prerelease_track :: data where
  "prerelease_track = \<lparr>name = ''p'',
                        versions = [(mk 1 0 0 [Num 1], Some 30), (mk 1 0 0 [Num 2], Some 50)],
                        has_time = True, latest = mk 1 0 0 [Num 1]\<rparr>"

definition noty :: data where
  "noty = \<lparr>name = ''noty'',
            versions = [(mk 3 1 4 [], Some 20), (mk 2 0 9 [], Some 30)],
            has_time = True, latest = mk 3 1 4 []\<rparr>"

definition old_line :: data where
  "old_line = \<lparr>name = ''noty'', versions = [(mk 2 0 9 [], Some 30)],
                has_time = True, latest = mk 2 0 9 []\<rparr>"

definition next_major :: data where
  "next_major = \<lparr>name = ''noty'',
                  versions = [(mk 3 0 1 [], Some 30), (mk 4 0 0 [], Some 40)],
                  has_time = True, latest = mk 4 0 0 []\<rparr>"

definition svgstore_next :: data where
  "svgstore_next = \<lparr>name = ''svgstore'',
                     versions = [(mk 2 0 3 [], Some 10), (mk 3 0 0 [Num 2], Some 30),
                                 (mk 3 0 0 [Num 3], Some 40)],
                     has_time = True, latest = mk 3 0 0 [Num 2]\<rparr>"

definition foo_dep :: dep where
  "foo_dep = \<lparr>dtype = ''dependencies'', dname = ''foo'', old = ''1.0.0'', new = ''2.0.0''\<rparr>"

definition bar_dep :: dep where
  "bar_dep = \<lparr>dtype = ''devDependencies'', dname = ''bar'', old = ''^0.1.0'', new = ''^0.2.0''\<rparr>"

definition dollar_dep :: dep where
  "dollar_dep = \<lparr>dtype = ''dependencies'', dname = ''$&'', old = ''1.0.0'', new = ''2.0.0''\<rparr>"

definition no_flags :: flags where
  "no_flags = \<lparr>argGreatest = Flag False, argPrerelease = Flag False, argRelease = Flag False,
               argPatch = Flag False, argMinor = Flag False, argAllowDowngrade = Flag False\<rparr>"

definition one_down :: network where
  "one_down registry n =
     (if n = ''gulp-sourcemaps''
      then Resolves \<lparr>ok = True, status = 200, statusText = ''OK'', json = Package gulp\<rparr>
      else Rejects)"

definition two_deps :: deps where
  "two_deps = [((''dependencies'', ''gulp-sourcemaps''), ''2.0.0''),
               ((''dependencies'', ''noty''), ''3.1.0'')]"

section \<open>Facts about versions and the candidate loop\<close>

lemma compareIdentifiers_eq_0: "compareIdentifiers x y = 0 \<longleftrightarrow> x = y"
  by (cases x; cases y) auto

lemma comparePreLoop_eq_0: "comparePreLoop xs ys = 0 \<longleftrightarrow> xs = ys"
  by (induction xs ys rule: comparePreLoop.induct) (auto simp: compareIdentifiers_eq_0)

lemma compare_eq_0: "compare a b = 0 \<longleftrightarrow> a = (b::semver)"
  by (cases a; cases b)
     (auto simp: compare_def compareMain_def compareNat_def comparePre_def comparePreLoop_eq_0
           split: if_splits)

lemma diff_cases:
  "diff a b =
     (if a = b then None
      else if major a \<noteq> major b then Some ((if prerelease a \<noteq> [] \<or> prerelease b \<noteq> [] then ''pre'' else []) @ ''major'')
      else if minor a \<noteq> minor b then Some ((if prerelease a \<noteq> [] \<or> prerelease b \<noteq> [] then ''pre'' else []) @ ''minor'')
      else if patch a \<noteq> patch b then Some ((if prerelease a \<noteq> [] \<or> prerelease b \<noteq> [] then ''pre'' else []) @ ''patch'')
      else Some ''prerelease'')"
proof -
  have "a = b" if "major a = major b" "minor a = minor b" "patch a = patch b"
    "prerelease a = []" "prerelease b = []"
    using that by (cases a; cases b) simp
  then show ?thesis
    by (auto simp: diff_def compare_eq_0 Let_def)
qed

lemma accepted_within:
  assumes "ceiling (semvers opt)" "diff a b = Some dc" "dc \<in> set (accepted opt)"
  shows "within (semvers opt) a b \<and> (usePre_of opt \<or> (prerelease a = [] \<and> prerelease b = []))"
  using assms unfolding ceiling_def
  by (auto simp: diff_cases accepted_def within_def split: if_splits)

lemma within_accepted:
  assumes "ceiling (semvers opt)" "within (semvers opt) a b" "a \<noteq> b"
    "usePre_of opt \<or> (prerelease a = [] \<and> prerelease b = [])"
  shows "\<exists>dc. diff a b = Some dc \<and> dc \<in> set (accepted opt)"
  using assms unfolding ceiling_def
  by (auto simp: diff_cases accepted_def within_def split: if_splits)

lemma step_Some:
  "\<exists>tv' td'. findVersion_step d opt (Some tv, td) e = Inr (Some tv', td')"
  by (cases e) (auto simp: findVersion_step_def split: option.splits)

lemma loop_Some:
  "\<exists>tv' td'. findVersion_loop d opt vs (Some tv, td) = Inr (Some tv', td')"
proof (induction vs arbitrary: tv td)
  case Nil
  show ?case by simp
next
  case (Cons e vs)
  obtain tv1 td1 where s: "findVersion_step d opt (Some tv, td) e = Inr (Some tv1, td1)"
    using step_Some [of d opt tv td e] by blast
  show ?case using Cons.IH [of tv1 td1] s by simp
qed

lemma coerce_release: "coerce r = Some v \<Longrightarrow> prerelease v = []"
  by (auto simp: coerce_def mk_def split: option.splits prod.splits)

lemma findVersion_Some:
  assumes "coerce (rangeStr opt) = Some base"
  shows "\<exists>r. findVersion d vs opt = Inr (Some r)"
  using loop_Some [of d opt vs base 0] assms
  by (auto simp: findVersion_def rangeToVersion_def)

lemma within_trans: "within S a b \<Longrightarrow> within S b c \<Longrightarrow> within S a c"
  by (auto simp: within_def)

lemma step_kept:
  assumes "ceiling (semvers opt)" "kept opt base tv"
    "findVersion_step d opt (Some tv, td) e = Inr (Some tv', td')"
  shows "kept opt base tv'"
proof (cases "tv' = tv")
  case True
  then show ?thesis using assms(2) by simp
next
  case False
  obtain parsed t where e: "e = (parsed, t)" by (cases e)
  from False assms(3) e obtain dc where
    dc: "diff tv parsed = Some dc" "dc \<in> set (accepted opt)" and tv': "tv' = parsed"
    and f: "\<not> (prerelease parsed \<noteq> [] \<and> (\<not> usePre_of opt \<or> useRel opt))"
    by (auto simp: findVersion_step_def split: option.splits if_splits)
  from accepted_within [OF assms(1) dc] have "within (semvers opt) tv parsed" by simp
  with assms(2) have "within (semvers opt) base parsed"
    by (auto simp: kept_def intro: within_trans)
  with f tv' show ?thesis by (auto simp: kept_def)
qed

lemma loop_kept:
  assumes "ceiling (semvers opt)"
  shows "kept opt base tv \<Longrightarrow> findVersion_loop d opt vs (Some tv, td) = Inr (Some r, td')
         \<Longrightarrow> kept opt base r"
proof (induction vs arbitrary: tv td)
  case Nil
  then show ?case by simp
next
  case (Cons e vs)
  obtain tv1 td1 where s: "findVersion_step d opt (Some tv, td) e = Inr (Some tv1, td1)"
    using step_Some [of d opt tv td e] by blast
  have k: "kept opt base tv1" using step_kept [OF assms Cons.prems(1) s] .
  from Cons.prems(2) s have "findVersion_loop d opt vs (Some tv1, td1) = Inr (Some r, td')"
    by simp
  from Cons.IH [OF k this] show ?case .
qed

lemma findVersion_kept:
  assumes "ceiling (semvers opt)" "coerce (rangeStr opt) = Some base"
    "findVersion d vs opt = Inr (Some r)"
  shows "kept opt base r"
proof -
  have b: "kept opt base base"
    using coerce_release [OF assms(2)] by (simp add: kept_def within_def)
  from assms(2,3) obtain td' where
    "findVersion_loop d opt vs (Some base, 0) = Inr (Some r, td')"
    by (auto simp: findVersion_def rangeToVersion_def split: sum.splits)
  from loop_kept [OF assms(1) b this] show ?thesis .
qed

lemma findVersion_class:
  assumes "ceiling (semvers opt)" "coerce (rangeStr opt) = Some base"
    "findVersion d vs opt = Inr (Some r)"
  shows "r = base \<or> (\<exists>dc. diff base r = Some dc \<and> dc \<in> set (accepted opt))"
proof (cases "r = base")
  case True
  then show ?thesis by simp
next
  case False
  have k: "kept opt base r" using findVersion_kept [OF assms] .
  have "usePre_of opt \<or> (prerelease base = [] \<and> prerelease r = [])"
    using k coerce_release [OF assms(2)] by (auto simp: kept_def)
  with within_accepted [OF assms(1), of base r] k False show ?thesis
    by (auto simp: kept_def)
qed

lemma coerce_star: "coerce ''*'' = None"
  by (simp add: coerce_def is_digit_def)

lemma findNewVersion_cases:
  assumes "findNewVersion allowDowngrade d opt = Inr (Some (Ver v))"
  shows "findVersion d (versions d) opt = Inr (Some v) \<or> (\<not> useGreatest opt \<and> v = latest d)"
  using assms
  by (auto simp: findNewVersion_def Let_def split: if_splits option.splits sum.splits)

lemma semvers_of_ceiling: "ceiling (semvers_of patchArg minorArg n)"
  by (simp add: ceiling_def semvers_of_def)

section \<open>Evaluation on concrete inputs\<close>

lemmas semver_defs =
  mk_def compare_def compareMain_def compareNat_def comparePre_def gt_def gte_def lt_def
  diff_def coerce_version_def isVersionPrerelease_def

lemmas string_defs =
  is_digit_def digit_val_def digits_to_nat_def MAX_SAFE_INTEGER_def numeric_identifier_def
  coerce_part_def coerce_def digits1_def dot1_def match_triple_def match_suffix_def
  match_version_def line_terminator_def digit_char_def format_def rangeToVersion_def

lemmas engine_defs =
  usePre_of_def accepted_def findVersion_step_def findVersion_def findNewVersion_def
  strip_pre_def tagOutsideSemvers_def semvers_of_def resolve_def

section \<open>The wildcard range\<close>


section \<open>Ranges that cannot be coerced\<close>

text \<open>
  C9 says that a valid range without a coercible number is resolved from the base
  \<^verbatim>\<open>0.0.0\<close>. The range \<^verbatim>\<open>x\<close> is valid (\<^verbatim>\<open>semver.validRange("x")\<close> is \<^verbatim>\<open>*\<close>) and has no
  digit: \<^verbatim>\<open>rangeToVersion\<close> returns \<^verbatim>\<open>null\<close>, and \<^verbatim>\<open>semver.diff\<close> throws on it at the first
  catalog version; with an empty catalog \<^verbatim>\<open>semver.coerce(opts.range).version\<close> throws
  in \<^verbatim>\<open>findNewVersion\<close>.
\<close>

theorem uncoercible_range_throws:
  "rangeToVersion ''x'' = None
   \<and> findNewVersion (Flag False)
        \<lparr>name = ''p'', versions = [(mk 1 0 0 [], Some 1)], has_time = True, latest = mk 1 0 0 []\<rparr>
        \<lparr>usePre = False, useRel = False, useGreatest = False,
         semvers = [''patch'', ''minor'', ''major''], rangeStr = ''x''\<rparr> = Inl TypeError
   \<and> findNewVersion (Flag False)
        \<lparr>name = ''p'', versions = [(mk 1 0 0 [], Some 1)], has_time = True, latest = mk 1 0 0 []\<rparr>
        \<lparr>usePre = False, useRel = False, useGreatest = True,
         semvers = [''patch'', ''minor'', ''major''], rangeStr = ''x''\<rparr> = Inl TypeError
   \<and> findNewVersion (Flag False)
        \<lparr>name = ''p'', versions = [], has_time = True, latest = mk 1 0 0 []\<rparr>
        \<lparr>usePre = False, useRel = False, useGreatest = False,
         semvers = [''patch'', ''minor'', ''major''], rangeStr = ''x''\<rparr> = Inl TypeError"
proof -
  have c: "coerce ''x'' = None"
    by (simp add: coerce_def is_digit_def)
  have p: "\<not> isRangePrerelease ''x''"
    by (simp add: match_triple_def digits1_def is_digit_def)
  show ?thesis
    using c p by (simp add: engine_defs rangeToVersion_def mk_def)
qed

section \<open>The diff class of a returned version\<close>

lemma findNewVersion_paths:
  assumes "findNewVersion allowDowngrade d opt = Inr (Some (Ver v))"
    and "coerce (rangeStr opt) = Some base"
  shows "findVersion d (versions d) opt = Inr (Some v)
         \<or> (\<not> useGreatest opt \<and> v = latest d \<and> \<not> (\<not> useRel opt \<and> usePre opt)
              \<and> \<not> isRangePrerelease (rangeStr opt)
              \<and> \<not> tagOutsideSemvers opt base (latest d)
              \<and> \<not> (useRel opt \<and> isVersionPrerelease (latest d))
              \<and> \<not> (lt (latest d) base \<and> \<not> isVersionPrerelease (latest d)
                       \<and> \<not> applies allowDowngrade (name d)))"
  using assms
  by (auto simp: findNewVersion_def Let_def split: if_splits option.splits sum.splits)

lemma release_tag_class:
  assumes "prerelease a = []" "prerelease b = []" "a \<noteq> b"
    and "\<not> tagOutsideSemvers opt a b"
  shows "\<exists>dc. diff a b = Some dc \<and> dc \<in> set (accepted opt)"
  using assms
  by (auto simp: tagOutsideSemvers_def diff_cases strip_pre_def accepted_def split: if_splits)

text \<open>
  C1, as amended. With the class list of \<^verbatim>\<open>main\<close> and a coercible old range, a
  version \<open>v\<close> returned by \<^verbatim>\<open>findNewVersion\<close>, be it the candidate of \<^verbatim>\<open>findVersion\<close>
  or the latest tag, is the coerced old version itself (nothing qualified), or its
  diff class from the coerced old version is in the accepted list (the ceiling's
  classes, with \<^verbatim>\<open>prerelease\<close> and the \<^verbatim>\<open>pre\<close> classes exactly when \<^verbatim>\<open>usePre\<close> holds),
  or it is the override for a prerelease tagged latest: in latest mode, with no
  prerelease in use and without release-only, \<open>v\<close> is the latest tag, a prerelease,
  and passes the tag test of \<^verbatim>\<open>findNewVersion\<close> (its class is \<^verbatim>\<open>prerelease\<close> or, without
  its \<^verbatim>\<open>pre\<close>, one of the ceiling's classes).
\<close>

theorem returned_version_class:
  assumes "semvers opt = semvers_of patchArg minorArg (name d)"
    and "coerce (rangeStr opt) = Some base"
    and "findNewVersion allowDowngrade d opt = Inr (Some (Ver v))"
  shows "v = base
         \<or> (\<exists>dc. diff base v = Some dc \<and> dc \<in> set (accepted opt))
         \<or> (\<not> useGreatest opt \<and> v = latest d \<and> isVersionPrerelease v
              \<and> \<not> usePre_of opt \<and> \<not> useRel opt \<and> \<not> tagOutsideSemvers opt base v)"
proof -
  have c: "ceiling (semvers opt)" using assms(1) semvers_of_ceiling by simp
  have rb: "prerelease base = []" using coerce_release [OF assms(2)] .
  from findNewVersion_paths [OF assms(3,2)] show ?thesis
  proof
    assume "findVersion d (versions d) opt = Inr (Some v)"
    from findVersion_class [OF c assms(2) this] show ?thesis by blast
  next
    assume p: "\<not> useGreatest opt \<and> v = latest d \<and> \<not> (\<not> useRel opt \<and> usePre opt)
              \<and> \<not> isRangePrerelease (rangeStr opt)
              \<and> \<not> tagOutsideSemvers opt base (latest d)
              \<and> \<not> (useRel opt \<and> isVersionPrerelease (latest d))
              \<and> \<not> (lt (latest d) base \<and> \<not> isVersionPrerelease (latest d)
                       \<and> \<not> applies allowDowngrade (name d))"
    show ?thesis
    proof (cases "isVersionPrerelease v")
      case True
      with p have "\<not> useRel opt" by simp
      with p have "\<not> usePre_of opt" by (auto simp: usePre_of_def)
      with p True \<open>\<not> useRel opt\<close> show ?thesis by simp
    next
      case False
      then have rv: "prerelease v = []" by (simp add: isVersionPrerelease_def)
      show ?thesis
      proof (cases "v = base")
        case True
        then show ?thesis by simp
      next
        case False
        then have n: "base \<noteq> v" by simp
        from p have "\<not> tagOutsideSemvers opt base v" by simp
        from release_tag_class [OF rb rv n this] show ?thesis by simp
      qed
    qed
  qed
qed

theorem returned_version_class_witness:
  "semvers (plain_opts ''2.0.0'') = semvers_of (Flag False) (Flag False) (name gulp)
   \<and> coerce (rangeStr (plain_opts ''2.0.0'')) = Some (mk 2 0 0 [])
   \<and> findNewVersion (Flag False) gulp (plain_opts ''2.0.0'') = Inr (Some (Ver (mk 2 6 5 [])))
   \<and> mk 2 6 5 [] = latest gulp
   \<and> mk 2 6 5 [] \<noteq> mk 2 0 0 []
   \<and> \<not> isVersionPrerelease (mk 2 6 5 [])
   \<and> diff (mk 2 0 0 []) (mk 2 6 5 []) = Some ''minor''
   \<and> ''minor'' \<in> set (accepted (plain_opts ''2.0.0''))"
proof -
  let ?opt = "plain_opts ''2.0.0''"
  have h1: "semvers ?opt = semvers_of (Flag False) (Flag False) (name gulp)"
    by (simp add: plain_opts_def semvers_of_def)
  have c: "coerce ''2.0.0'' = Some (mk 2 0 0 [])"
    by (simp add: string_defs mk_def)
  have h2: "coerce (rangeStr ?opt) = Some (mk 2 0 0 [])"
    using c by (simp add: plain_opts_def)
  have p: "\<not> isRangePrerelease ''2.0.0''"
    by (simp add: string_defs)
  have h3: "findNewVersion (Flag False) gulp ?opt = Inr (Some (Ver (mk 2 6 5 [])))"
    using c p by (simp add: engine_defs semver_defs string_defs gulp_def plain_opts_def)
  have n: "mk 2 6 5 [] \<noteq> mk 2 0 0 []" and q: "\<not> isVersionPrerelease (mk 2 6 5 [])"
    by (simp_all add: semver_defs)
  have m: "diff (mk 2 0 0 []) (mk 2 6 5 []) = Some ''minor''"
    by (simp add: semver_defs)
  from returned_version_class [OF h1 h2 h3] n q m
  have "''minor'' \<in> set (accepted ?opt)" by auto
  then show ?thesis
    using h1 h2 h3 n q m by (simp add: gulp_def)
qed

text \<open>
  C1 as stated fails: in greatest mode with nothing above the old version in the
  catalog, \<^verbatim>\<open>findVersion\<close> returns the coerced old version, and its diff class from
  itself is none. For the range \<^verbatim>\<open>1.0.0\<close> the rewritten range is the old one and
  \<^verbatim>\<open>main\<close> drops the dependency; for \<^verbatim>\<open>1.0.0-0\<close> it is reported as an update to
  \<^verbatim>\<open>1.0.0\<close>.
\<close>

theorem returned_version_class_counterexample:
  "coerce ''1.0.0'' = Some (mk 1 0 0 [])
   \<and> findNewVersion (Flag False)
        \<lparr>name = ''p'', versions = [(mk 0 9 0 [], Some 10)], has_time = True, latest = mk 0 9 0 []\<rparr>
        ((plain_opts ''1.0.0'')\<lparr>useGreatest := True\<rparr>) = Inr (Some (Ver (mk 1 0 0 [])))
   \<and> diff (mk 1 0 0 []) (mk 1 0 0 []) = None
   \<and> coerce ''1.0.0-0'' = Some (mk 1 0 0 [])
   \<and> findNewVersion (Flag False)
        \<lparr>name = ''p'', versions = [(mk 0 9 0 [], Some 10)], has_time = True, latest = mk 0 9 0 []\<rparr>
        ((plain_opts ''1.0.0-0'')\<lparr>useGreatest := True\<rparr>) = Inr (Some (Ver (mk 1 0 0 [])))
   \<and> resolve (Flag False)
        \<lparr>name = ''p'', versions = [(mk 0 9 0 [], Some 10)], has_time = True, latest = mk 0 9 0 []\<rparr>
        ((plain_opts ''1.0.0-0'')\<lparr>useGreatest := True\<rparr>) = Inr (Some ''1.0.0'')"
proof -
  have c: "coerce ''1.0.0'' = Some (mk 1 0 0 [])"
    by (simp add: string_defs mk_def)
  have p: "\<not> isRangePrerelease ''1.0.0''"
    by (simp add: string_defs)
  have c': "coerce ''1.0.0-0'' = Some (mk 1 0 0 [])"
    by (simp add: string_defs mk_def)
  have p': "isRangePrerelease ''1.0.0-0''"
    by (simp add: string_defs)
  have a: "findNewVersion (Flag False)
        \<lparr>name = ''p'', versions = [(mk 0 9 0 [], Some 10)], has_time = True, latest = mk 0 9 0 []\<rparr>
        ((plain_opts ''1.0.0'')\<lparr>useGreatest := True\<rparr>) = Inr (Some (Ver (mk 1 0 0 [])))"
    using c p by (simp add: engine_defs semver_defs string_defs plain_opts_def)
  have b: "findNewVersion (Flag False)
        \<lparr>name = ''p'', versions = [(mk 0 9 0 [], Some 10)], has_time = True, latest = mk 0 9 0 []\<rparr>
        ((plain_opts ''1.0.0-0'')\<lparr>useGreatest := True\<rparr>) = Inr (Some (Ver (mk 1 0 0 [])))"
    using c' p' by (simp add: engine_defs semver_defs string_defs plain_opts_def)
  have f: "format (mk 1 0 0 []) = ''1.0.0''"
    by (simp add: string_defs mk_def show_nat.simps)
  have u: "updateRange ''1.0.0-0'' ''1.0.0'' = ''1.0.0''"
    by (simp add: string_defs)
  have r: "resolve (Flag False)
        \<lparr>name = ''p'', versions = [(mk 0 9 0 [], Some 10)], has_time = True, latest = mk 0 9 0 []\<rparr>
        ((plain_opts ''1.0.0-0'')\<lparr>useGreatest := True\<rparr>) = Inr (Some ''1.0.0'')"
    using b f u by (simp add: resolve_def plain_opts_def)
  have d: "diff (mk 1 0 0 []) (mk 1 0 0 []) = None"
    by (simp add: semver_defs)
  show ?thesis
    using c a d c' b r by simp
qed

section \<open>A prerelease tagged latest\<close>

text \<open>
  C5, as amended. In latest mode, without release-only, without the prerelease flag
  and for an old range that is not itself a prerelease, a prerelease latest tag is
  returned when its diff class from the coerced old version is \<^verbatim>\<open>prerelease\<close> or, with
  its \<^verbatim>\<open>pre\<close> prefix removed, is one of the ceiling's classes; whatever the candidate
  of \<^verbatim>\<open>findVersion\<close> is. So \<^verbatim>\<open>^3.0.0\<close> with \<^verbatim>\<open>3.0.0-2\<close> tagged latest becomes \<^verbatim>\<open>^3.0.0-2\<close>.
\<close>

theorem prerelease_latest_tag_returned:
  assumes "rangeStr opt \<noteq> ''*''" and "\<not> useGreatest opt" and "\<not> useRel opt"
    and "\<not> usePre opt" and "\<not> isRangePrerelease (rangeStr opt)"
    and "coerce (rangeStr opt) = Some oldVersion"
    and "isVersionPrerelease (latest d)"
    and "\<not> tagOutsideSemvers opt oldVersion (latest d)"
  shows "findNewVersion allowDowngrade d opt = Inr (Some (Ver (latest d)))"
proof -
  obtain r where "findVersion d (versions d) opt = Inr (Some r)"
    using findVersion_Some [OF assms(6)] by blast
  then show ?thesis
    using assms by (simp add: findNewVersion_def Let_def)
qed

theorem prerelease_latest_tag_returned_witness:
  "rangeStr (plain_opts ''^3.0.0'') \<noteq> ''*''
   \<and> \<not> useGreatest (plain_opts ''^3.0.0'') \<and> \<not> useRel (plain_opts ''^3.0.0'')
   \<and> \<not> usePre (plain_opts ''^3.0.0'')
   \<and> \<not> isRangePrerelease (rangeStr (plain_opts ''^3.0.0''))
   \<and> coerce (rangeStr (plain_opts ''^3.0.0'')) = Some (mk 3 0 0 [])
   \<and> isVersionPrerelease (latest svgstore)
   \<and> \<not> tagOutsideSemvers (plain_opts ''^3.0.0'') (mk 3 0 0 []) (latest svgstore)
   \<and> findNewVersion (Flag False) svgstore (plain_opts ''^3.0.0'')
       = Inr (Some (Ver (mk 3 0 0 [Num 2])))
   \<and> resolve (Flag False) svgstore (plain_opts ''^3.0.0'') = Inr (Some ''^3.0.0-2'')"
proof -
  let ?opt = "plain_opts ''^3.0.0''"
  have h1: "rangeStr ?opt \<noteq> ''*''" and h2: "\<not> useGreatest ?opt" and h3: "\<not> useRel ?opt"
    and h4: "\<not> usePre ?opt"
    by (simp_all add: plain_opts_def)
  have h5: "\<not> isRangePrerelease (rangeStr ?opt)"
    by (simp add: plain_opts_def string_defs)
  have h6: "coerce (rangeStr ?opt) = Some (mk 3 0 0 [])"
    by (simp add: plain_opts_def string_defs mk_def)
  have h7: "isVersionPrerelease (latest svgstore)"
    by (simp add: svgstore_def semver_defs)
  have h8: "\<not> tagOutsideSemvers ?opt (mk 3 0 0 []) (latest svgstore)"
    by (simp add: tagOutsideSemvers_def svgstore_def semver_defs plain_opts_def)
  have f: "findNewVersion (Flag False) svgstore ?opt = Inr (Some (Ver (latest svgstore)))"
    using prerelease_latest_tag_returned [OF h1 h2 h3 h4 h5 h6 h7 h8] .
  have l: "latest svgstore = mk 3 0 0 [Num 2]"
    by (simp add: svgstore_def)
  have u: "updateRange ''^3.0.0'' (format (mk 3 0 0 [Num 2])) = ''^3.0.0-2''"
    by (simp add: string_defs mk_def show_nat.simps)
  have "resolve (Flag False) svgstore ?opt = Inr (Some ''^3.0.0-2'')"
    using f l u by (simp add: resolve_def plain_opts_def)
  then show ?thesis
    using h1 h2 h3 h4 h5 h6 h7 h8 f l by simp
qed

text \<open>
  C5 as stated fails when the old range is itself a prerelease. For \<^verbatim>\<open>1.0.0-0\<close> with
  \<^verbatim>\<open>1.0.0-1\<close> tagged latest and \<^verbatim>\<open>1.0.0-2\<close> published after it, the tag is a
  prerelease, release-only and the prerelease flag are off, the candidate \<^verbatim>\<open>1.0.0-2\<close>
  differs from the tag, the tag's class \<^verbatim>\<open>prerelease\<close> is accepted, and the candidate
  is returned, not the tag.
\<close>

theorem prerelease_latest_tag_counterexample:
  "isVersionPrerelease (latest prerelease_track)
   \<and> \<not> useRel (plain_opts ''1.0.0-0'') \<and> \<not> usePre (plain_opts ''1.0.0-0'')
   \<and> \<not> useGreatest (plain_opts ''1.0.0-0'')
   \<and> coerce ''1.0.0-0'' = Some (mk 1 0 0 [])
   \<and> findVersion prerelease_track (versions prerelease_track) (plain_opts ''1.0.0-0'')
       = Inr (Some (mk 1 0 0 [Num 2]))
   \<and> mk 1 0 0 [Num 2] \<noteq> latest prerelease_track
   \<and> diff (mk 1 0 0 []) (latest prerelease_track) = Some ''prerelease''
   \<and> ''prerelease'' \<in> set (accepted (plain_opts ''1.0.0-0''))
   \<and> findNewVersion (Flag False) prerelease_track (plain_opts ''1.0.0-0'')
       = Inr (Some (Ver (mk 1 0 0 [Num 2])))
   \<and> findNewVersion (Flag False) prerelease_track (plain_opts ''1.0.0-0'')
       \<noteq> Inr (Some (Ver (latest prerelease_track)))"
proof -
  have c: "coerce ''1.0.0-0'' = Some (mk 1 0 0 [])"
    by (simp add: string_defs mk_def)
  have p: "isRangePrerelease ''1.0.0-0''"
    by (simp add: string_defs)
  have v: "findVersion prerelease_track (versions prerelease_track) (plain_opts ''1.0.0-0'')
             = Inr (Some (mk 1 0 0 [Num 2]))"
    using c p by (simp add: engine_defs semver_defs string_defs prerelease_track_def plain_opts_def)
  have f: "findNewVersion (Flag False) prerelease_track (plain_opts ''1.0.0-0'')
             = Inr (Some (Ver (mk 1 0 0 [Num 2])))"
    using c p v by (simp add: findNewVersion_def semver_defs plain_opts_def)
  have a: "''prerelease'' \<in> set (accepted (plain_opts ''1.0.0-0''))"
    using p by (simp add: accepted_def usePre_of_def plain_opts_def)
  show ?thesis
    using c v f a by (simp add: prerelease_track_def plain_opts_def semver_defs)
qed

section \<open>The order of releases and the loop in greatest mode\<close>

lemma gte_refl: "gte a a"
proof -
  have "compare a a = 0" by (simp add: compare_eq_0)
  then show ?thesis by (simp add: gte_def)
qed

lemma not_lt_gte: "\<not> lt a b \<longleftrightarrow> gte a b"
  by (auto simp: lt_def gte_def)

lemma coerce_version_release: "prerelease v = [] \<Longrightarrow> coerce_version v = v"
  by (cases v) (simp add: coerce_version_def mk_def)

lemma gte_release:
  assumes "prerelease a = []" "prerelease b = []"
  shows "gte a b \<longleftrightarrow>
    (major b < major a \<or> (major b = major a \<and> (minor b < minor a
       \<or> (minor b = minor a \<and> patch b \<le> patch a))))"
  using assms
  by (auto simp: gte_def compare_def compareMain_def compareNat_def comparePre_def split: if_splits)

lemma gte_total: "prerelease a = [] \<Longrightarrow> prerelease b = [] \<Longrightarrow> gte a b \<or> gte b a"
  by (auto simp: gte_release)

lemma gte_trans:
  "prerelease a = [] \<Longrightarrow> prerelease b = [] \<Longrightarrow> prerelease c = [] \<Longrightarrow>
   gte a b \<Longrightarrow> gte b c \<Longrightarrow> gte a c"
  by (auto simp: gte_release)

lemma gte_antisym:
  "prerelease a = [] \<Longrightarrow> prerelease b = [] \<Longrightarrow> gte a b \<Longrightarrow> gte b a \<Longrightarrow> a = b"
  by (cases a; cases b) (auto simp: gte_release)

lemma within_sym: "within S a b \<Longrightarrow> within S b a"
  by (auto simp: within_def)

lemma diff_None: "diff a b = None \<longleftrightarrow> a = b"
  by (simp add: diff_cases)

lemma greatest_step:
  assumes c: "ceiling (semvers opt)" and g: "useGreatest opt \<or> \<not> has_time d"
    and f: "\<not> usePre_of opt \<or> useRel opt"
    and k: "kept opt base tv" and r: "prerelease tv = []"
    and s: "findVersion_step d opt (Some tv, td) e = Inr (Some tv', td')"
  shows "prerelease tv' = [] \<and> gte tv' tv \<and> (tv' = tv \<or> tv' = fst e)
         \<and> (prerelease (fst e) = [] \<and> within (semvers opt) base (fst e) \<longrightarrow> gte tv' (fst e))"
proof -
  obtain parsed t where e: "e = (parsed, t)" by (cases e)
  show ?thesis
  proof (cases "prerelease parsed = []")
    case False
    with s e f have "tv' = tv"
      by (auto simp: findVersion_step_def)
    with r e False show ?thesis by (simp add: gte_refl)
  next
    case rel: True
    show ?thesis
    proof (cases "diff tv parsed")
      case None
      then have "parsed = tv" by (simp add: diff_None)
      moreover from s e None rel have "tv' = tv"
        by (auto simp: findVersion_step_def)
      ultimately show ?thesis using r e by (simp add: gte_refl)
    next
      case (Some dc)
      show ?thesis
      proof (cases "dc \<in> set (accepted opt)")
        case False
        with s e Some rel have t: "tv' = tv"
          by (auto simp: findVersion_step_def)
        have "\<not> within (semvers opt) base parsed"
        proof
          assume w: "within (semvers opt) base parsed"
          from k have "within (semvers opt) tv base"
            by (auto simp: kept_def intro: within_sym)
          from within_trans [OF this w] have "within (semvers opt) tv parsed" .
          moreover have "tv \<noteq> parsed"
          proof
            assume "tv = parsed"
            then have "diff tv parsed = None" by (simp add: diff_None)
            with Some show False by simp
          qed
          ultimately obtain dc' where "diff tv parsed = Some dc'" "dc' \<in> set (accepted opt)"
            using within_accepted [OF c, of tv parsed] r rel by blast
          with Some False show False by simp
        qed
        with t r e show ?thesis by (simp add: gte_refl)
      next
        case True
        show ?thesis
        proof (cases "gte parsed tv")
          case True
          with s e Some rel \<open>dc \<in> set (accepted opt)\<close> g have "tv' = parsed"
            by (auto simp: findVersion_step_def coerce_version_release)
          with True rel e show ?thesis by (simp add: gte_refl)
        next
          case False
          with s e Some rel \<open>dc \<in> set (accepted opt)\<close> g have t: "tv' = tv"
            by (auto simp: findVersion_step_def coerce_version_release)
          from False gte_total [OF rel r] have "gte tv parsed" by blast
          with t r e show ?thesis by (simp add: gte_refl)
        qed
      qed
    qed
  qed
qed

lemma greatest_loop:
  assumes c: "ceiling (semvers opt)" and g: "useGreatest opt \<or> \<not> has_time d"
    and f: "\<not> usePre_of opt \<or> useRel opt"
  shows "kept opt base tv \<Longrightarrow> prerelease tv = [] \<Longrightarrow>
         findVersion_loop d opt vs (Some tv, td) = Inr (Some r, td') \<Longrightarrow>
         prerelease r = [] \<and> gte r tv \<and> (r = tv \<or> r \<in> fst ` set vs)
         \<and> (\<forall>w \<in> fst ` set vs. prerelease w = [] \<and> within (semvers opt) base w \<longrightarrow> gte r w)"
proof (induction vs arbitrary: tv td)
  case Nil
  then show ?case by (simp add: gte_refl)
next
  case (Cons e vs)
  obtain tv1 td1 where s: "findVersion_step d opt (Some tv, td) e = Inr (Some tv1, td1)"
    using step_Some [of d opt tv td e] by blast
  note st = greatest_step [OF c g f Cons.prems(1,2) s]
  have k1: "kept opt base tv1" using step_kept [OF c Cons.prems(1) s] .
  from st have r1: "prerelease tv1 = []" by simp
  from Cons.prems(3) s have l: "findVersion_loop d opt vs (Some tv1, td1) = Inr (Some r, td')"
    by simp
  note ih = Cons.IH [OF k1 r1 l]
  from ih have rr: "prerelease r = []" by simp
  have a: "gte r tv"
    using gte_trans [OF rr r1 Cons.prems(2)] ih st by blast
  have b: "r = tv \<or> r \<in> fst ` set (e # vs)"
    using ih st by auto
  have "gte r (fst e)" if "prerelease (fst e) = []" "within (semvers opt) base (fst e)"
    using gte_trans [OF rr r1 that(1)] ih st that by blast
  with ih have d: "\<forall>w \<in> fst ` set (e # vs).
      prerelease w = [] \<and> within (semvers opt) base w \<longrightarrow> gte r w"
    by auto
  from rr a b d show ?case by blast
qed

section \<open>The greatest qualifying version\<close>

text \<open>
  C3, as amended. In greatest mode, or when the catalog has no \<^verbatim>\<open>time\<close>, and when no
  prerelease passes the filter (no prerelease in use, or release-only), the version
  \<^verbatim>\<open>findVersion\<close> returns is at least every qualifying catalog version, and it is the
  base version or a qualifying catalog version itself.
\<close>

theorem greatest_is_maximum:
  assumes "semvers opt = semvers_of patchArg minorArg (name d)"
    and "coerce (rangeStr opt) = Some base"
    and "useGreatest opt \<or> \<not> has_time d"
    and "\<not> usePre_of opt \<or> useRel opt"
  shows "\<exists>r. findVersion d vs opt = Inr (Some r)
           \<and> (\<forall>w \<in> fst ` set vs. qualifies opt base w \<longrightarrow> gte r w)
           \<and> (r = base \<or> (r \<in> fst ` set vs \<and> qualifies opt base r))"
proof -
  have c: "ceiling (semvers opt)" using assms(1) semvers_of_ceiling by simp
  have rb: "prerelease base = []" using coerce_release [OF assms(2)] .
  have kb: "kept opt base base" using rb by (simp add: kept_def within_def)
  obtain r td' where l: "findVersion_loop d opt vs (Some base, 0) = Inr (Some r, td')"
    using loop_Some [of d opt vs base 0] by blast
  then have fv: "findVersion d vs opt = Inr (Some r)"
    using assms(2) by (simp add: findVersion_def rangeToVersion_def)
  note g = greatest_loop [OF c assms(3,4) kb rb l]
  have rr: "prerelease r = []" using g by simp
  have m: "gte r w" if "w \<in> fst ` set vs" "qualifies opt base w" for w
  proof -
    from that(2) assms(4) have "prerelease w = []"
      by (auto simp: qualifies_def passes_filter_def)
    moreover from that(2) obtain dc where "diff base w = Some dc" "dc \<in> set (accepted opt)"
      by (auto simp: qualifies_def)
    from accepted_within [OF c this] have "within (semvers opt) base w" by simp
    ultimately show ?thesis using g that(1) by blast
  qed
  have q: "qualifies opt base r" if "r \<noteq> base"
  proof -
    have "within (semvers opt) base r"
      using loop_kept [OF c kb l] by (simp add: kept_def)
    from within_accepted [OF c this] that rb rr
    obtain dc where "diff base r = Some dc" "dc \<in> set (accepted opt)" by metis
    with rr show ?thesis by (auto simp: qualifies_def passes_filter_def)
  qed
  have a: "\<forall>w \<in> fst ` set vs. qualifies opt base w \<longrightarrow> gte r w"
    using m by simp
  from g have "r = base \<or> r \<in> fst ` set vs" by simp
  with q have b: "r = base \<or> (r \<in> fst ` set vs \<and> qualifies opt base r)"
    by fastforce
  show ?thesis
    using fv a b by (intro exI [of _ r] conjI)
qed

theorem greatest_is_maximum_witness:
  "semvers ((plain_opts ''2.0.0'')\<lparr>useGreatest := True\<rparr>)
     = semvers_of (Flag False) (Flag False) (name gulp)
   \<and> coerce (rangeStr ((plain_opts ''2.0.0'')\<lparr>useGreatest := True\<rparr>)) = Some (mk 2 0 0 [])
   \<and> useGreatest ((plain_opts ''2.0.0'')\<lparr>useGreatest := True\<rparr>)
   \<and> \<not> usePre_of ((plain_opts ''2.0.0'')\<lparr>useGreatest := True\<rparr>)
   \<and> findVersion gulp (versions gulp) ((plain_opts ''2.0.0'')\<lparr>useGreatest := True\<rparr>)
       = Inr (Some (mk 2 6 5 []))
   \<and> qualifies ((plain_opts ''2.0.0'')\<lparr>useGreatest := True\<rparr>) (mk 2 0 0 []) (mk 2 0 1 [])
   \<and> gte (mk 2 6 5 []) (mk 2 0 1 [])"
proof -
  let ?opt = "(plain_opts ''2.0.0'')\<lparr>useGreatest := True\<rparr>"
  have h1: "semvers ?opt = semvers_of (Flag False) (Flag False) (name gulp)"
    by (simp add: plain_opts_def semvers_of_def)
  have c: "coerce ''2.0.0'' = Some (mk 2 0 0 [])"
    by (simp add: string_defs mk_def)
  have h2: "coerce (rangeStr ?opt) = Some (mk 2 0 0 [])"
    using c by (simp add: plain_opts_def)
  have p: "\<not> isRangePrerelease ''2.0.0''"
    by (simp add: string_defs)
  have h3: "useGreatest ?opt \<or> \<not> has_time gulp"
    by (simp add: plain_opts_def)
  have n: "\<not> usePre_of ?opt"
    using p by (simp add: usePre_of_def plain_opts_def)
  then have h4: "\<not> usePre_of ?opt \<or> useRel ?opt" by simp
  have fv: "findVersion gulp (versions gulp) ?opt = Inr (Some (mk 2 6 5 []))"
    using c p by (simp add: engine_defs semver_defs string_defs gulp_def plain_opts_def)
  have q: "qualifies ?opt (mk 2 0 0 []) (mk 2 0 1 [])"
    using p by (simp add: qualifies_def passes_filter_def accepted_def usePre_of_def
        plain_opts_def semver_defs)
  have i: "mk 2 0 1 [] \<in> fst ` set (versions gulp)"
    by (simp add: gulp_def)
  from greatest_is_maximum [OF h1 h2 h3 h4, of "versions gulp"]
  obtain r where r: "findVersion gulp (versions gulp) ?opt = Inr (Some r)"
    and m: "\<forall>w \<in> fst ` set (versions gulp). qualifies ?opt (mk 2 0 0 []) w \<longrightarrow> gte r w"
    by blast
  from r fv have "r = mk 2 6 5 []" by simp
  with m i q have "gte (mk 2 6 5 []) (mk 2 0 1 [])" by blast
  then show ?thesis
    using h1 h2 n fv q by (simp add: plain_opts_def)
qed

text \<open>
  C3 as stated fails when prereleases pass the filter: the comparison in greatest mode
  is \<^verbatim>\<open>semver.gte(semver.coerce(parsed.version).version, tempVersion)\<close>, so a prerelease
  replaces a release of the same three numbers. With the prerelease flag and the
  catalog \<^verbatim>\<open>2.0.0\<close>, \<^verbatim>\<open>2.0.0-1\<close> (in this order) the result is \<^verbatim>\<open>2.0.0-1\<close>, and the
  qualifying \<^verbatim>\<open>2.0.0\<close> is greater.
\<close>

theorem greatest_is_maximum_counterexample:
  "useGreatest ((plain_opts ''1.0.0'')\<lparr>useGreatest := True, usePre := True\<rparr>)
   \<and> coerce ''1.0.0'' = Some (mk 1 0 0 [])
   \<and> findVersion
        \<lparr>name = ''p'', versions = [(mk 2 0 0 [], Some 10), (mk 2 0 0 [Num 1], Some 20)],
         has_time = True, latest = mk 2 0 0 []\<rparr>
        [(mk 2 0 0 [], Some 10), (mk 2 0 0 [Num 1], Some 20)]
        ((plain_opts ''1.0.0'')\<lparr>useGreatest := True, usePre := True\<rparr>)
       = Inr (Some (mk 2 0 0 [Num 1]))
   \<and> qualifies ((plain_opts ''1.0.0'')\<lparr>useGreatest := True, usePre := True\<rparr>)
        (mk 1 0 0 []) (mk 2 0 0 [])
   \<and> gt (mk 2 0 0 []) (mk 2 0 0 [Num 1])
   \<and> \<not> gte (mk 2 0 0 [Num 1]) (mk 2 0 0 [])"
proof -
  have c: "coerce ''1.0.0'' = Some (mk 1 0 0 [])"
    by (simp add: string_defs mk_def)
  have p: "\<not> isRangePrerelease ''1.0.0''"
    by (simp add: string_defs)
  show ?thesis
    using c p by (simp add: engine_defs semver_defs string_defs qualifies_def passes_filter_def
        plain_opts_def)
qed

section \<open>Downgrades\<close>

lemma latest_mode_result:
  assumes "coerce (rangeStr opt) = Some oldVersion"
    and "\<not> isRangePrerelease (rangeStr opt)"
    and "\<not> useGreatest opt"
    and "\<not> (usePre opt \<and> \<not> useRel opt)"
    and "\<not> tagOutsideSemvers opt oldVersion (latest d)"
    and "\<not> isVersionPrerelease (latest d)"
    and "\<not> applies allowDowngrade (name d)"
  shows "findNewVersion allowDowngrade d opt
           = (if lt (latest d) oldVersion then Inr None else Inr (Some (Ver (latest d))))"
proof -
  obtain r where r: "findVersion d (versions d) opt = Inr (Some r)"
    using findVersion_Some [OF assms(1)] by blast
  have s: "rangeStr opt \<noteq> ''*''" using assms(1) coerce_star by auto
  show ?thesis
    using assms r s by (auto simp: findNewVersion_def Let_def)
qed

text \<open>
  C2, as amended. For an old range that is not a prerelease, with downgrades not
  allowed, \<^verbatim>\<open>findNewVersion\<close> never returns a version below the coerced old version
  in greatest mode when no prerelease is in use (or with release-only), and in
  latest mode when the prerelease flag is off (or release-only is on) and the
  latest tag is not a prerelease and passes the tag test (its class is one of the
  ceiling's classes); in that latest mode, when the latest tag is lower than the
  old version, the result is no change.
\<close>

theorem no_downgrade:
  assumes "semvers opt = semvers_of patchArg minorArg (name d)"
    and "coerce (rangeStr opt) = Some oldVersion"
    and "\<not> isRangePrerelease (rangeStr opt)"
    and "\<not> applies allowDowngrade (name d)"
    and "(useGreatest opt \<and> (\<not> usePre opt \<or> useRel opt))
         \<or> (\<not> useGreatest opt \<and> \<not> (usePre opt \<and> \<not> useRel opt)
              \<and> \<not> tagOutsideSemvers opt oldVersion (latest d)
              \<and> \<not> isVersionPrerelease (latest d))"
  shows "(\<forall>v. findNewVersion allowDowngrade d opt = Inr (Some (Ver v)) \<longrightarrow> gte v oldVersion)
         \<and> (\<not> useGreatest opt \<and> lt (latest d) oldVersion
              \<longrightarrow> findNewVersion allowDowngrade d opt = Inr None)"
proof (cases "useGreatest opt")
  case True
  with assms(5) have f: "\<not> usePre_of opt \<or> useRel opt"
    using assms(3) by (auto simp: usePre_of_def)
  have c: "ceiling (semvers opt)" using assms(1) semvers_of_ceiling by simp
  have rb: "prerelease oldVersion = []" using coerce_release [OF assms(2)] .
  have kb: "kept opt oldVersion oldVersion" using rb by (simp add: kept_def within_def)
  from True have g: "useGreatest opt \<or> \<not> has_time d" by simp
  have "gte v oldVersion" if h: "findNewVersion allowDowngrade d opt = Inr (Some (Ver v))" for v
  proof -
    from findNewVersion_cases [OF h] True
    have "findVersion d (versions d) opt = Inr (Some v)" by simp
    then obtain td' where
      l: "findVersion_loop d opt (versions d) (Some oldVersion, 0) = Inr (Some v, td')"
      using assms(2) by (auto simp: findVersion_def rangeToVersion_def split: sum.splits)
    from greatest_loop [OF c g f kb rb l] show ?thesis by simp
  qed
  with True show ?thesis by simp
next
  case False
  with assms(5) have p: "\<not> (usePre opt \<and> \<not> useRel opt)"
    and t: "\<not> tagOutsideSemvers opt oldVersion (latest d)"
    and r: "\<not> isVersionPrerelease (latest d)" by simp_all
  note e = latest_mode_result [OF assms(2,3) False p t r assms(4)]
  show ?thesis
    using e by (auto simp: not_lt_gte [symmetric])
qed

theorem no_downgrade_witness:
  "semvers (plain_opts ''3.1.0'') = semvers_of (Flag False) (Flag False) (name noty)
   \<and> coerce (rangeStr (plain_opts ''3.1.0'')) = Some (mk 3 1 0 [])
   \<and> \<not> isRangePrerelease (rangeStr (plain_opts ''3.1.0''))
   \<and> \<not> applies (Flag False) (name noty)
   \<and> \<not> useGreatest (plain_opts ''3.1.0'') \<and> \<not> usePre (plain_opts ''3.1.0'')
   \<and> \<not> tagOutsideSemvers (plain_opts ''3.1.0'') (mk 3 1 0 []) (latest noty)
   \<and> \<not> isVersionPrerelease (latest noty)
   \<and> findNewVersion (Flag False) noty (plain_opts ''3.1.0'') = Inr (Some (Ver (mk 3 1 4 [])))
   \<and> gte (mk 3 1 4 []) (mk 3 1 0 [])
   \<and> \<not> tagOutsideSemvers (plain_opts ''3.1.0'') (mk 3 1 0 []) (latest old_line)
   \<and> \<not> isVersionPrerelease (latest old_line)
   \<and> lt (latest old_line) (mk 3 1 0 [])
   \<and> findNewVersion (Flag False) old_line (plain_opts ''3.1.0'') = Inr None"
proof -
  let ?opt = "plain_opts ''3.1.0''"
  have r: "rangeStr ?opt = ''3.1.0''" by (simp add: plain_opts_def)
  have h1: "semvers ?opt = semvers_of (Flag False) (Flag False) (name noty)"
    and h1': "semvers ?opt = semvers_of (Flag False) (Flag False) (name old_line)"
    by (simp_all add: plain_opts_def semvers_of_def)
  have h2: "coerce (rangeStr ?opt) = Some (mk 3 1 0 [])"
    by (simp add: r string_defs mk_def)
  have h3: "\<not> isRangePrerelease (rangeStr ?opt)"
    by (simp add: r string_defs)
  have h4: "\<not> applies (Flag False) (name noty)" and h4': "\<not> applies (Flag False) (name old_line)"
    by simp_all
  have g: "\<not> useGreatest ?opt" and u: "\<not> usePre ?opt"
    by (simp_all add: plain_opts_def)
  have t: "\<not> tagOutsideSemvers ?opt (mk 3 1 0 []) (latest noty)"
    and t': "\<not> tagOutsideSemvers ?opt (mk 3 1 0 []) (latest old_line)"
    by (simp_all add: tagOutsideSemvers_def strip_pre_def semver_defs plain_opts_def noty_def
        old_line_def)
  have q: "\<not> isVersionPrerelease (latest noty)" and q': "\<not> isVersionPrerelease (latest old_line)"
    by (simp_all add: semver_defs noty_def old_line_def)
  have h5: "(useGreatest ?opt \<and> (\<not> usePre ?opt \<or> useRel ?opt))
         \<or> (\<not> useGreatest ?opt \<and> \<not> (usePre ?opt \<and> \<not> useRel ?opt)
              \<and> \<not> tagOutsideSemvers ?opt (mk 3 1 0 []) (latest noty)
              \<and> \<not> isVersionPrerelease (latest noty))"
    using g u t q by simp
  have h5': "(useGreatest ?opt \<and> (\<not> usePre ?opt \<or> useRel ?opt))
         \<or> (\<not> useGreatest ?opt \<and> \<not> (usePre ?opt \<and> \<not> useRel ?opt)
              \<and> \<not> tagOutsideSemvers ?opt (mk 3 1 0 []) (latest old_line)
              \<and> \<not> isVersionPrerelease (latest old_line))"
    using g u t' q' by simp
  have f: "findNewVersion (Flag False) noty ?opt = Inr (Some (Ver (mk 3 1 4 [])))"
    using h2 h3 unfolding r
    by (simp add: engine_defs semver_defs string_defs noty_def plain_opts_def)
  have l: "lt (latest old_line) (mk 3 1 0 [])"
    by (simp add: semver_defs old_line_def)
  from no_downgrade [OF h1 h2 h3 h4 h5] f
  have a: "gte (mk 3 1 4 []) (mk 3 1 0 [])" by blast
  from no_downgrade [OF h1' h2 h3 h4' h5'] g l
  have b: "findNewVersion (Flag False) old_line ?opt = Inr None" by blast
  show ?thesis
    using h1 h2 h3 g u t q f a t' q' l b by simp
qed

text \<open>
  C2 as stated fails, on the repository's own test data and beyond. For the range
  \<^verbatim>\<open>^3.0.0\<close>, which is no prerelease, with downgrades not allowed, latest mode
  returns the prerelease latest tag \<^verbatim>\<open>3.0.0-2\<close>, release-only returns the candidate
  \<^verbatim>\<open>2.0.3\<close>, and greatest mode with the prerelease flag returns \<^verbatim>\<open>3.0.0-2\<close>. With the
  prerelease flag in latest mode the range \<^verbatim>\<open>3.1.0\<close> becomes \<^verbatim>\<open>2.0.9\<close> when that is all
  the catalog holds, and under the minor ceiling \<^verbatim>\<open>^3.1.0\<close> falls back to the
  candidate \<^verbatim>\<open>3.0.1\<close> when \<^verbatim>\<open>4.0.0\<close> is tagged latest. Each result is below the old
  version.
\<close>

theorem no_downgrade_counterexample:
  "\<not> isRangePrerelease ''^3.0.0''
   \<and> \<not> applies (Flag False) (name svgstore)
   \<and> coerce ''^3.0.0'' = Some (mk 3 0 0 [])
   \<and> findNewVersion (Flag False) svgstore (plain_opts ''^3.0.0'')
       = Inr (Some (Ver (mk 3 0 0 [Num 2])))
   \<and> lt (mk 3 0 0 [Num 2]) (mk 3 0 0 [])
   \<and> findNewVersion (Flag False) svgstore ((plain_opts ''^3.0.0'')\<lparr>useRel := True\<rparr>)
       = Inr (Some (Ver (mk 2 0 3 [])))
   \<and> lt (mk 2 0 3 []) (mk 3 0 0 [])
   \<and> findNewVersion (Flag False) svgstore
        ((plain_opts ''^3.0.0'')\<lparr>useGreatest := True, usePre := True\<rparr>)
       = Inr (Some (Ver (mk 3 0 0 [Num 2])))
   \<and> \<not> isRangePrerelease ''3.1.0''
   \<and> coerce ''3.1.0'' = Some (mk 3 1 0 [])
   \<and> findNewVersion (Flag False) old_line ((plain_opts ''3.1.0'')\<lparr>usePre := True\<rparr>)
       = Inr (Some (Ver (mk 2 0 9 [])))
   \<and> lt (mk 2 0 9 []) (mk 3 1 0 [])
   \<and> \<not> isRangePrerelease ''^3.1.0''
   \<and> coerce ''^3.1.0'' = Some (mk 3 1 0 [])
   \<and> findNewVersion (Flag False) next_major
        ((plain_opts ''^3.1.0'')\<lparr>semvers := [''patch'', ''minor'']\<rparr>)
       = Inr (Some (Ver (mk 3 0 1 [])))
   \<and> lt (mk 3 0 1 []) (mk 3 1 0 [])"
proof -
  have c: "coerce ''^3.0.0'' = Some (mk 3 0 0 [])"
    by (simp add: string_defs mk_def)
  have p: "\<not> isRangePrerelease ''^3.0.0''"
    by (simp add: string_defs)
  have a: "findNewVersion (Flag False) svgstore (plain_opts ''^3.0.0'')
       = Inr (Some (Ver (mk 3 0 0 [Num 2])))"
    using c p by (simp add: engine_defs semver_defs string_defs svgstore_def plain_opts_def)
  have b: "findNewVersion (Flag False) svgstore ((plain_opts ''^3.0.0'')\<lparr>useRel := True\<rparr>)
       = Inr (Some (Ver (mk 2 0 3 [])))"
    using c p by (simp add: engine_defs semver_defs string_defs svgstore_def plain_opts_def)
  have g: "findNewVersion (Flag False) svgstore
        ((plain_opts ''^3.0.0'')\<lparr>useGreatest := True, usePre := True\<rparr>)
       = Inr (Some (Ver (mk 3 0 0 [Num 2])))"
    using c p by (simp add: engine_defs semver_defs string_defs svgstore_def plain_opts_def)
  have l: "lt (mk 3 0 0 [Num 2]) (mk 3 0 0 []) \<and> lt (mk 2 0 3 []) (mk 3 0 0 [])
           \<and> lt (mk 2 0 9 []) (mk 3 1 0 []) \<and> lt (mk 3 0 1 []) (mk 3 1 0 [])"
    by (simp add: semver_defs)
  have c1: "coerce ''3.1.0'' = Some (mk 3 1 0 [])"
    by (simp add: string_defs mk_def)
  have p1: "\<not> isRangePrerelease ''3.1.0''"
    by (simp add: string_defs)
  have e: "findNewVersion (Flag False) old_line ((plain_opts ''3.1.0'')\<lparr>usePre := True\<rparr>)
       = Inr (Some (Ver (mk 2 0 9 [])))"
    using c1 p1 by (simp add: engine_defs semver_defs string_defs old_line_def plain_opts_def)
  have c2: "coerce ''^3.1.0'' = Some (mk 3 1 0 [])"
    by (simp add: string_defs mk_def)
  have p2: "\<not> isRangePrerelease ''^3.1.0''"
    by (simp add: string_defs)
  have m: "findNewVersion (Flag False) next_major
        ((plain_opts ''^3.1.0'')\<lparr>semvers := [''patch'', ''minor'']\<rparr>)
       = Inr (Some (Ver (mk 3 0 1 [])))"
    using c2 p2 by (simp add: engine_defs semver_defs string_defs next_major_def plain_opts_def)
  show ?thesis
    using c p a b g l c1 p1 e c2 p2 m by (simp add: svgstore_def)
qed

section \<open>What the range rewriter replaces\<close>

lemma dropWhile_digits:
  "list_all is_digit a \<Longrightarrow> s = [] \<or> \<not> is_digit (hd s) \<Longrightarrow> dropWhile is_digit (a @ s) = s"
proof (induction a)
  case Nil
  then show ?case by (cases s) auto
next
  case (Cons x xs)
  then show ?case by simp
qed

lemma digits1_run:
  assumes "a \<noteq> []" "list_all is_digit a" "s = [] \<or> \<not> is_digit (hd s)"
  shows "digits1 (a @ s) = Some s"
proof -
  from assms(1,2) have "is_digit (hd (a @ s))" by (cases a) auto
  with assms show ?thesis by (simp add: digits1_def dropWhile_digits)
qed

lemma dot_not_digit: "\<not> is_digit CHR ''.''"
  by (simp add: is_digit_def)

lemma match_triple_run:
  assumes "a \<noteq> []" "list_all is_digit a" "b \<noteq> []" "list_all is_digit b"
    "c \<noteq> []" "list_all is_digit c" "s = [] \<or> \<not> is_digit (hd s)"
  shows "match_triple (a @ ''.'' @ b @ ''.'' @ c @ s) = Some s"
proof -
  have 1: "digits1 (a @ ''.'' @ b @ ''.'' @ c @ s) = Some (''.'' @ b @ ''.'' @ c @ s)"
    using digits1_run [OF assms(1,2)] dot_not_digit by simp
  have 2: "digits1 (b @ ''.'' @ c @ s) = Some (''.'' @ c @ s)"
    using digits1_run [OF assms(3,4)] dot_not_digit by simp
  have 3: "digits1 (c @ s) = Some s"
    using digits1_run [OF assms(5,6,7)] .
  show ?thesis
    using 1 2 3 by (simp add: match_triple_def dot1_def)
qed

lemma match_version_run:
  assumes "a \<noteq> []" "list_all is_digit a" "b \<noteq> []" "list_all is_digit b"
    "c \<noteq> []" "list_all is_digit c" "s = [] \<or> \<not> is_digit (hd s)"
  shows "match_version (a @ ''.'' @ b @ ''.'' @ c @ s) = Some (after_version s)"
  using match_triple_run [OF assms]
  by (simp add: match_version_def after_version_def split: option.splits)

lemma match_version_no_digit: "\<not> is_digit x \<Longrightarrow> match_version (x # xs) = None"
  by (simp add: match_version_def match_triple_def digits1_def)

lemma updateRange_prefix:
  "list_all (\<lambda>x. \<not> is_digit x) p \<Longrightarrow> updateRange (p @ r) v = p @ updateRange r v"
  by (induction p) (auto simp: match_version_no_digit)

lemma updateRange_unchanged: "\<not> has_version r \<Longrightarrow> updateRange r v = r"
  by (induction r) auto

text \<open>
  C6, as amended. In a range made of a digit-free text \<open>p\<close> (operators, whitespace),
  three dot-separated numbers and a rest \<open>s\<close> that does not go on with a digit,
  \<^verbatim>\<open>updateRange\<close> keeps \<open>p\<close>, puts the new version in the place of the numbers and,
  when \<open>s\<close> starts with a hyphen and one more character, of the whole rest of that
  line too; it then rewrites what remains in the same way. A range with no match
  is returned unchanged.
\<close>

theorem updateRange_replaces:
  assumes "list_all (\<lambda>x. \<not> is_digit x) p"
    and "a \<noteq> []" and "list_all is_digit a"
    and "b \<noteq> []" and "list_all is_digit b"
    and "c \<noteq> []" and "list_all is_digit c"
    and "s = [] \<or> \<not> is_digit (hd s)"
    and "\<not> has_version r"
  shows "updateRange (p @ a @ ''.'' @ b @ ''.'' @ c @ s) version
           = p @ version @ updateRange (after_version s) version
         \<and> updateRange r version = r"
proof -
  obtain x xs where a: "a = x # xs" using assms(2) by (cases a) auto
  have m: "match_version (x # xs @ ''.'' @ b @ ''.'' @ c @ s) = Some (after_version s)"
    using match_version_run [OF assms(2-8)] a by simp
  have "updateRange (a @ ''.'' @ b @ ''.'' @ c @ s) version
          = version @ updateRange (after_version s) version"
    using m a by simp
  then have "updateRange (p @ a @ ''.'' @ b @ ''.'' @ c @ s) version
          = p @ version @ updateRange (after_version s) version"
    using updateRange_prefix [OF assms(1)] by simp
  then show ?thesis
    using updateRange_unchanged [OF assms(9)] by simp
qed

theorem updateRange_replaces_witness:
  "list_all (\<lambda>x. \<not> is_digit x) ''>=''
   \<and> list_all is_digit ''1'' \<and> list_all is_digit ''0''
   \<and> \<not> is_digit (hd '' <2'')
   \<and> \<not> has_version ''^1.0''
   \<and> after_version '' <2'' = '' <2''
   \<and> updateRange ''>=1.0.0 <2'' ''1.0.1'' = ''>=1.0.1 <2''
   \<and> updateRange ''^1.0'' ''1.0.1'' = ''^1.0''"
proof -
  have h1: "list_all (\<lambda>x. \<not> is_digit x) ''>=''" by (simp add: is_digit_def)
  have h2: "''1'' \<noteq> []" and h3: "list_all is_digit ''1''"
    and h4: "''0'' \<noteq> []" and h5: "list_all is_digit ''0''"
    by (simp_all add: is_digit_def)
  have h8: "'' <2'' = [] \<or> \<not> is_digit (hd '' <2'')" by (simp add: is_digit_def)
  have h9: "\<not> has_version ''^1.0''" by (simp add: string_defs)
  have av: "after_version '' <2'' = '' <2''"
    by (simp add: after_version_def match_suffix_def)
  have rest: "updateRange '' <2'' ''1.0.1'' = '' <2''" by (simp add: string_defs)
  from updateRange_replaces [OF h1 h2 h3 h4 h5 h4 h5 h8 h9, of "''1.0.1''"] av rest
  have "updateRange ''>=1.0.0 <2'' ''1.0.1'' = ''>=1.0.1 <2''
        \<and> updateRange ''^1.0'' ''1.0.1'' = ''^1.0''" by simp
  then show ?thesis
    using h1 h3 h5 h8 h9 av by simp
qed

text \<open>
  C6 as stated fails: \<^verbatim>\<open>-.+\<close> takes every character to the end of the line. In the
  valid range \<^verbatim>\<open>>=1.0.0-beta <2\<close> the only version-like substring is \<^verbatim>\<open>1.0.0-beta\<close>,
  and the comparator after it is lost.
\<close>

theorem updateRange_counterexample:
  "updateRange ''>=1.0.0-beta <2'' ''1.0.1'' = ''>=1.0.1''
   \<and> updateRange ''>=1.0.0-beta <2'' ''1.0.1'' \<noteq> ''>=1.0.1 <2''"
  by (simp add: string_defs)

section \<open>Resolving again\<close>

lemma kept_new_base:
  assumes "kept opt base v" "kept (opt\<lparr>rangeStr := r'\<rparr>) v w"
  shows "within (semvers opt) base w"
  using assms by (auto simp: kept_def intro: within_trans)

lemma greatest_fixed_point:
  assumes c: "ceiling (semvers opt)"
    and b: "coerce (rangeStr opt) = Some base"
    and g: "useGreatest opt"
    and f: "\<not> usePre_of opt \<or> useRel opt"
    and f': "\<not> usePre_of (opt\<lparr>rangeStr := r'\<rparr>) \<or> useRel opt"
    and v: "findVersion d vs opt = Inr (Some v)"
    and b': "coerce r' = Some v"
  shows "findVersion d vs (opt\<lparr>rangeStr := r'\<rparr>) = Inr (Some v)"
proof -
  let ?opt' = "opt\<lparr>rangeStr := r'\<rparr>"
  have rb: "prerelease base = []" using coerce_release [OF b] .
  have rv: "prerelease v = []" using coerce_release [OF b'] .
  have kb: "kept opt base base" using rb by (simp add: kept_def within_def)
  have kv: "kept ?opt' v v" using rv by (simp add: kept_def within_def)
  have g1: "useGreatest opt \<or> \<not> has_time d" using g by simp
  have g2: "useGreatest ?opt' \<or> \<not> has_time d" using g by simp
  have c': "ceiling (semvers ?opt')" using c by simp
  have f2: "\<not> usePre_of ?opt' \<or> useRel ?opt'" using f' by simp
  from v b obtain td1 where
    l1: "findVersion_loop d opt vs (Some base, 0) = Inr (Some v, td1)"
    by (auto simp: findVersion_def rangeToVersion_def split: sum.splits)
  note m1 = greatest_loop [OF c g1 f kb rb l1]
  have k1: "kept opt base v" using loop_kept [OF c kb l1] .
  obtain w td2 where l2: "findVersion_loop d ?opt' vs (Some v, 0) = Inr (Some w, td2)"
    using loop_Some [of d ?opt' vs v 0] by blast
  note m2 = greatest_loop [OF c' g2 f2 kv rv l2]
  have k2: "kept ?opt' v w" using loop_kept [OF c' kv l2] .
  have rw: "prerelease w = []" using m2 by simp
  have "w = v"
  proof (cases "w = v")
    case True
    then show ?thesis .
  next
    case False
    with m2 have i: "w \<in> fst ` set vs" by simp
    have "within (semvers opt) base w" using kept_new_base [OF k1 k2] .
    with m1 i rw have "gte v w" by blast
    moreover from m2 have "gte w v" by simp
    ultimately show ?thesis using gte_antisym [OF rw rv] by simp
  qed
  with l2 b' show ?thesis
    by (simp add: findVersion_def rangeToVersion_def)
qed

lemma latest_fixed_point:
  assumes "coerce r' = Some (latest d)" and "\<not> isRangePrerelease r'" and "r' \<noteq> ''*''"
    and "\<not> useGreatest opt" and "\<not> (usePre opt \<and> \<not> useRel opt)"
  shows "findNewVersion allowDowngrade d (opt\<lparr>rangeStr := r'\<rparr>) = Inr (Some (Ver (latest d)))"
proof -
  let ?opt' = "opt\<lparr>rangeStr := r'\<rparr>"
  have b: "coerce (rangeStr ?opt') = Some (latest d)" using assms(1) by simp
  obtain w where w: "findVersion d (versions d) ?opt' = Inr (Some w)"
    using findVersion_Some [OF b] by blast
  have r: "\<not> isVersionPrerelease (latest d)"
    using coerce_release [OF assms(1)] by (simp add: isVersionPrerelease_def)
  have t: "\<not> tagOutsideSemvers ?opt' (latest d) (latest d)"
    by (simp add: tagOutsideSemvers_def diff_cases)
  have "compare (latest d) (latest d) = 0" by (simp add: compare_eq_0)
  then have l: "\<not> lt (latest d) (latest d)" by (simp add: lt_def)
  show ?thesis
    using assms w r t l by (auto simp: findNewVersion_def Let_def)
qed

lemma digit_cases: "n < 10 \<Longrightarrow> n \<in> set [0, 1, 2, 3, 4, 5, 6, 7, 8, 9 :: nat]"
  by simp arith

lemma digit_char_digit: "n < 10 \<Longrightarrow> is_digit (digit_char n)"
  using digit_cases [of n] by (auto simp: digit_char_def is_digit_def)

lemma digit_val_char: "n < 10 \<Longrightarrow> digit_val (digit_char n) = n"
  using digit_cases [of n] by (auto simp: digit_char_def digit_val_def)

lemma digit_char_zero: "n < 10 \<Longrightarrow> digit_char n = CHR ''0'' \<Longrightarrow> n = 0"
  using digit_cases [of n] by (auto simp: digit_char_def)

lemma show_nat_digits: "show_nat n \<noteq> [] \<and> list_all is_digit (show_nat n)"
proof (induction n rule: show_nat.induct)
  case (1 n)
  show ?case
  proof (cases "n < 10")
    case True
    then show ?thesis
      using digit_char_digit [of n] by (simp add: show_nat.simps [of n])
  next
    case False
    then show ?thesis
      using 1 digit_char_digit [of "n mod 10"] by (simp add: show_nat.simps [of n])
  qed
qed

lemma digits_to_nat_snoc: "digits_to_nat (s @ [c]) = 10 * digits_to_nat s + digit_val c"
  by (simp add: digits_to_nat_def)

lemma digits_to_nat_show: "digits_to_nat (show_nat n) = n"
proof (induction n rule: show_nat.induct)
  case (1 n)
  show ?case
  proof (cases "n < 10")
    case True
    then show ?thesis
      using digit_val_char [of n] by (simp add: show_nat.simps [of n] digits_to_nat_def)
  next
    case False
    then show ?thesis
      using 1 digit_val_char [of "n mod 10"]
      by (simp add: show_nat.simps [of n] digits_to_nat_snoc)
  qed
qed

lemma show_nat_hd: "0 < n \<Longrightarrow> hd (show_nat n) \<noteq> CHR ''0''"
proof (induction n rule: show_nat.induct)
  case (1 n)
  show ?case
  proof (cases "n < 10")
    case True
    then show ?thesis
      using 1(2) digit_char_zero [of n] by (auto simp: show_nat.simps [of n])
  next
    case False
    then have "0 < n div 10" by simp
    then show ?thesis
      using False 1(1) show_nat_digits [of "n div 10"] by (simp add: show_nat.simps [of n])
  qed
qed

lemma show_nat_zero: "show_nat 0 = ''0''"
  by (simp add: show_nat.simps digit_char_def)

lemma length_show_nat: "n < 10 ^ Suc k \<Longrightarrow> length (show_nat n) \<le> Suc k"
proof (induction k arbitrary: n)
  case 0
  then show ?case by (simp add: show_nat.simps [of n])
next
  case (Suc k)
  show ?case
  proof (cases "n < 10")
    case True
    then show ?thesis by (simp add: show_nat.simps [of n])
  next
    case False
    have "n div 10 < 10 ^ Suc k"
      using Suc.prems by (simp add: less_mult_imp_div_less mult.commute)
    from Suc.IH [OF this] False show ?thesis
      by (simp add: show_nat.simps [of n])
  qed
qed

lemma length_show_nat_16: "n \<le> MAX_SAFE_INTEGER \<Longrightarrow> length (show_nat n) \<le> 16"
proof -
  assume "n \<le> MAX_SAFE_INTEGER"
  then have "n < 10 ^ Suc 15" by (simp add: MAX_SAFE_INTEGER_def)
  from length_show_nat [OF this] show ?thesis by simp
qed

lemma numeric_identifier_show:
  assumes "n \<le> MAX_SAFE_INTEGER"
  shows "numeric_identifier (show_nat n) = Some n"
proof (cases "n = 0")
  case True
  then show ?thesis
    by (simp add: show_nat_zero numeric_identifier_def is_digit_def digits_to_nat_def digit_val_def)
next
  case False
  then have "hd (show_nat n) \<noteq> CHR ''0''" using show_nat_hd [of n] by simp
  then show ?thesis
    using assms show_nat_digits [of n] by (simp add: numeric_identifier_def digits_to_nat_show)
qed

lemma takeWhile_digits:
  "list_all is_digit a \<Longrightarrow> s = [] \<or> \<not> is_digit (hd s) \<Longrightarrow> takeWhile is_digit (a @ s) = a"
proof (induction a)
  case Nil
  then show ?case by (cases s) auto
next
  case (Cons x xs)
  then show ?case by simp
qed

lemma coerce_find_prefix:
  "list_all (\<lambda>x. \<not> is_digit x) p \<Longrightarrow> coerce_find (p @ r) = coerce_find r"
  by (induction p) auto

lemma coerce_find_run:
  assumes "a \<noteq> []" "list_all is_digit a" "length a \<le> 16" "s = [] \<or> \<not> is_digit (hd s)"
  shows "coerce_find (a @ s) = Some (a, s)"
proof -
  obtain x xs where a: "a = x # xs" using assms(1) by (cases a) auto
  have d: "is_digit x" using assms(2) a by simp
  have t: "takeWhile is_digit (x # xs @ s) = a" "dropWhile is_digit (x # xs @ s) = s"
    using takeWhile_digits [OF assms(2,4)] dropWhile_digits [OF assms(2,4)] a by simp_all
  have "coerce_find (x # xs @ s) = Some (a, s)"
    using d assms(3) unfolding coerce_find.simps t by simp
  then show ?thesis using a by simp
qed

lemma coerce_part_run:
  assumes "a \<noteq> []" "list_all is_digit a" "length a \<le> 16" "s = [] \<or> \<not> is_digit (hd s)"
  shows "coerce_part (''.'' @ a @ s) = Some (a, s)"
proof -
  have h: "is_digit (hd (a @ s))" using assms(1,2) by (cases a) auto
  show ?thesis
    using h assms(1,3) takeWhile_digits [OF assms(2,4)] dropWhile_digits [OF assms(2,4)]
    by (simp add: coerce_part_def)
qed

lemma coerce_run:
  assumes "list_all (\<lambda>x. \<not> is_digit x) p"
    and "x \<le> MAX_SAFE_INTEGER" "y \<le> MAX_SAFE_INTEGER" "z \<le> MAX_SAFE_INTEGER"
    and "t = [] \<or> \<not> is_digit (hd t)"
  shows "coerce (p @ show_nat x @ ''.'' @ show_nat y @ ''.'' @ show_nat z @ t) = Some (mk x y z [])"
proof -
  note dx = show_nat_digits [of x] and dy = show_nat_digits [of y] and dz = show_nat_digits [of z]
  have 1: "coerce_find (p @ show_nat x @ ''.'' @ show_nat y @ ''.'' @ show_nat z @ t)
         = Some (show_nat x, ''.'' @ show_nat y @ ''.'' @ show_nat z @ t)"
    using coerce_find_run [of "show_nat x" "''.'' @ show_nat y @ ''.'' @ show_nat z @ t"]
      dx length_show_nat_16 [OF assms(2)] dot_not_digit
    by (simp add: coerce_find_prefix [OF assms(1)])
  have 2: "coerce_part (''.'' @ show_nat y @ ''.'' @ show_nat z @ t)
         = Some (show_nat y, ''.'' @ show_nat z @ t)"
    using coerce_part_run [of "show_nat y" "''.'' @ show_nat z @ t"]
      dy length_show_nat_16 [OF assms(3)] dot_not_digit
    by simp
  have 3: "coerce_part (''.'' @ show_nat z @ t) = Some (show_nat z, t)"
    using coerce_part_run [of "show_nat z" t] dz length_show_nat_16 [OF assms(4)] assms(5)
    by simp
  show ?thesis
    unfolding coerce_def 1 using 2 3
    by (simp add: numeric_identifier_show [OF assms(2)] numeric_identifier_show [OF assms(3)]
        numeric_identifier_show [OF assms(4)])
qed

lemma format_release:
  "prerelease v = [] \<Longrightarrow>
     format v = show_nat (major v) @ ''.'' @ show_nat (minor v) @ ''.'' @ show_nat (patch v)"
  by (simp add: format_def)

lemma mk_release: "prerelease v = [] \<Longrightarrow> mk (major v) (minor v) (patch v) [] = v"
  by (cases v) (simp add: mk_def)

lemma has_version_no_digit: "list_all (\<lambda>x. \<not> is_digit x) t \<Longrightarrow> \<not> has_version t"
  by (induction t) (auto simp: match_version_no_digit)

lemma hd_no_digit: "list_all (\<lambda>x. \<not> is_digit x) t \<Longrightarrow> t = [] \<or> \<not> is_digit (hd t)"
  by (cases t) auto

lemma match_suffix_after: "match_suffix (after_version s) = None"
proof (cases "match_suffix s")
  case None
  then show ?thesis by (simp add: after_version_def)
next
  case (Some r)
  then obtain c cs where s: "s = c # cs" and r: "r = dropWhile (\<lambda>x. \<not> line_terminator x) cs"
    by (cases s) (auto simp: match_suffix_def split: if_splits)
  have "r = [] \<or> line_terminator (hd r)"
    unfolding r using hd_dropWhile [of "\<lambda>x. \<not> line_terminator x" cs] by auto
  then have "match_suffix r = None"
    by (cases r) (auto simp: match_suffix_def line_terminator_def)
  then show ?thesis using Some by (simp add: after_version_def)
qed

lemma after_version_idem: "after_version (after_version s) = after_version s"
  using match_suffix_after [of s] by (simp add: after_version_def [of "after_version s"])

text \<open>The rewritten range, for a release and a range of one version.\<close>

lemma updateRange_one:
  assumes "list_all (\<lambda>x. \<not> is_digit x) p"
    and "a \<noteq> []" "list_all is_digit a" "b \<noteq> []" "list_all is_digit b"
    and "c \<noteq> []" "list_all is_digit c"
    and "s = [] \<or> \<not> is_digit (hd s)"
    and "list_all (\<lambda>x. \<not> is_digit x) (after_version s)"
  shows "updateRange (p @ a @ ''.'' @ b @ ''.'' @ c @ s) version = p @ version @ after_version s"
proof -
  obtain x xs where a: "a = x # xs" using assms(2) by (cases a) auto
  have m: "match_version (x # xs @ ''.'' @ b @ ''.'' @ c @ s) = Some (after_version s)"
    using match_version_run [OF assms(2-8)] a by simp
  have "updateRange (a @ ''.'' @ b @ ''.'' @ c @ s) version
          = version @ updateRange (after_version s) version"
    using m a by simp
  then show ?thesis
    using updateRange_prefix [OF assms(1)]
      updateRange_unchanged [OF has_version_no_digit [OF assms(9)]]
    by simp
qed

lemma isRangePrerelease_prefix:
  "list_all (\<lambda>x. \<not> is_digit x) p \<Longrightarrow> isRangePrerelease (p @ r) = isRangePrerelease r"
  by (induction p) (auto simp: match_triple_def digits1_def)

lemma isRangePrerelease_no_digit: "list_all (\<lambda>x. \<not> is_digit x) t \<Longrightarrow> \<not> isRangePrerelease t"
  using isRangePrerelease_prefix [of t "[]"] by simp

lemma isRangePrerelease_run:
  assumes "list_all is_digit a" "x = [] \<or> \<not> is_digit (hd x)"
    and "\<And>a'. a' \<noteq> [] \<Longrightarrow> list_all is_digit a' \<Longrightarrow>
           (case match_triple (a' @ x) of None \<Rightarrow> False | Some r \<Rightarrow> match_suffix r \<noteq> None) = False"
  shows "isRangePrerelease (a @ x) = isRangePrerelease x"
  using assms(1)
proof (induction a)
  case Nil
  show ?case by simp
next
  case (Cons d ds)
  have "(case match_triple ((d # ds) @ x) of None \<Rightarrow> False | Some r \<Rightarrow> match_suffix r \<noteq> None) = False"
    using assms(3) [of "d # ds"] Cons.prems by simp
  then show ?case
    using Cons by simp
qed

lemma digits1_no_digit: "list_all (\<lambda>x. \<not> is_digit x) r \<Longrightarrow> digits1 r = None"
  by (cases r) (auto simp: digits1_def)

lemma dot1_no_digit:
  assumes "list_all (\<lambda>x. \<not> is_digit x) t" "dot1 t = Some r"
  shows "digits1 r = None"
proof -
  from assms(2) have "t = CHR ''.'' # r"
    by (cases t) (auto simp: dot1_def split: if_splits)
  with assms(1) have "list_all (\<lambda>x. \<not> is_digit x) r" by simp
  then show ?thesis by (rule digits1_no_digit)
qed

lemma triple_short:
  assumes "a \<noteq> []" "list_all is_digit a" "t = [] \<or> \<not> is_digit (hd t)"
    and "list_all (\<lambda>x. \<not> is_digit x) t"
  shows "match_triple (a @ t) = None"
proof -
  have 1: "digits1 (a @ t) = Some t" using digits1_run [OF assms(1-3)] .
  have "dot1 t = Some r \<Longrightarrow> digits1 r = None" for r
    using dot1_no_digit [OF assms(4)] .
  then show ?thesis
    using 1 by (auto simp: match_triple_def split: option.splits)
qed

lemma triple_pair:
  assumes "b \<noteq> []" "list_all is_digit b" "c \<noteq> []" "list_all is_digit c"
    and "list_all (\<lambda>x. \<not> is_digit x) t"
  shows "match_triple (b @ ''.'' @ c @ t) = None"
proof -
  note ht = hd_no_digit [OF assms(5)]
  have 1: "digits1 (b @ ''.'' @ c @ t) = Some (''.'' @ c @ t)"
    using digits1_run [OF assms(1,2), of "''.'' @ c @ t"] dot_not_digit by simp
  have 2: "digits1 (c @ t) = Some t" using digits1_run [OF assms(3,4) ht] .
  have "dot1 t = Some r \<Longrightarrow> digits1 r = None" for r
    using dot1_no_digit [OF assms(5)] .
  then show ?thesis
    using 1 2 by (auto simp: match_triple_def dot1_def split: option.splits)
qed

lemma isRangePrerelease_one:
  assumes "list_all (\<lambda>x. \<not> is_digit x) p"
    and "a \<noteq> []" "list_all is_digit a" "b \<noteq> []" "list_all is_digit b"
    and "c \<noteq> []" "list_all is_digit c"
    and "list_all (\<lambda>x. \<not> is_digit x) t" and "match_suffix t = None"
  shows "\<not> isRangePrerelease (p @ a @ ''.'' @ b @ ''.'' @ c @ t)"
proof -
  note ht = hd_no_digit [OF assms(8)]
  have nd: "\<not> is_digit (hd (''.'' @ u))" for u using dot_not_digit by simp
  have dot: "isRangePrerelease (''.'' @ u) = isRangePrerelease u" for u
    using isRangePrerelease_prefix [of "''.''" u] dot_not_digit by simp
  have 1: "isRangePrerelease (c @ t) = isRangePrerelease t"
  proof (rule isRangePrerelease_run [OF assms(7) ht])
    fix a' :: string assume "a' \<noteq> []" "list_all is_digit a'"
    from triple_short [OF this ht assms(8)]
    show "(case match_triple (a' @ t) of None \<Rightarrow> False | Some r \<Rightarrow> match_suffix r \<noteq> None) = False"
      by simp
  qed
  have 2: "isRangePrerelease (b @ ''.'' @ c @ t) = isRangePrerelease (''.'' @ c @ t)"
  proof (rule isRangePrerelease_run [OF assms(5)])
    show "''.'' @ c @ t = [] \<or> \<not> is_digit (hd (''.'' @ c @ t))" using dot_not_digit by simp
  next
    fix a' :: string assume "a' \<noteq> []" "list_all is_digit a'"
    from triple_pair [OF this assms(6,7,8)]
    show "(case match_triple (a' @ ''.'' @ c @ t) of None \<Rightarrow> False
            | Some r \<Rightarrow> match_suffix r \<noteq> None) = False"
      by simp
  qed
  have 3: "isRangePrerelease (a @ ''.'' @ b @ ''.'' @ c @ t)
         = isRangePrerelease (''.'' @ b @ ''.'' @ c @ t)"
  proof (rule isRangePrerelease_run [OF assms(3)])
    show "''.'' @ b @ ''.'' @ c @ t = [] \<or> \<not> is_digit (hd (''.'' @ b @ ''.'' @ c @ t))"
      using dot_not_digit by simp
  next
    fix a' :: string assume "a' \<noteq> []" "list_all is_digit a'"
    from match_triple_run [OF this assms(4-7) ht] assms(9)
    show "(case match_triple (a' @ ''.'' @ b @ ''.'' @ c @ t) of None \<Rightarrow> False
            | Some r \<Rightarrow> match_suffix r \<noteq> None) = False"
      by simp
  qed
  show ?thesis
    using isRangePrerelease_prefix [OF assms(1)] 3 dot [of "b @ ''.'' @ c @ t"] 2
      dot [of "c @ t"] 1 isRangePrerelease_no_digit [OF assms(8)]
    by simp
qed


lemma numeric_identifier_bound: "numeric_identifier s = Some n \<Longrightarrow> n \<le> MAX_SAFE_INTEGER"
  by (auto simp: numeric_identifier_def split: if_splits)

lemma coerce_valid:
  assumes "coerce r = Some v"
  shows "valid_version v"
proof -
  from assms obtain ma mi pa x y z where
    n: "numeric_identifier ma = Some x" "numeric_identifier mi = Some y"
       "numeric_identifier pa = Some z" and v: "v = mk x y z []"
    unfolding coerce_def Let_def
    by (auto split: option.splits prod.splits)
  show ?thesis
    using n [THEN numeric_identifier_bound] by (simp add: v valid_version_def mk_def)
qed

lemma findNewVersion_wildcard:
  "findNewVersion allowDowngrade d opt = Inr (Some Wildcard) \<Longrightarrow> rangeStr opt = ''*''"
  by (auto simp: findNewVersion_def Let_def split: if_splits option.splits sum.splits)

lemma latest_mode_returns:
  assumes "\<not> isRangePrerelease (rangeStr opt)"
    and "\<not> useGreatest opt"
    and "\<not> (usePre opt \<and> \<not> useRel opt)"
    and "coerce (rangeStr opt) = Some oldVersion"
    and "\<not> tagOutsideSemvers opt oldVersion (latest d)"
    and "\<not> isVersionPrerelease (latest d)"
    and "findNewVersion allowDowngrade d opt = Inr (Some (Ver v))"
  shows "v = latest d"
  using assms
  by (auto simp: findNewVersion_def Let_def split: if_splits option.splits sum.splits)

text \<open>
  The range that \<^verbatim>\<open>updateRange\<close> writes for a release, when the old range holds one
  version and no other digit: it coerces to the release, it is no prerelease range,
  and \<^verbatim>\<open>updateRange\<close> with the same release leaves it as it is.
\<close>

lemma rewritten_range:
  assumes p: "list_all (\<lambda>x. \<not> is_digit x) p"
    and a: "a \<noteq> []" "list_all is_digit a"
    and b: "b \<noteq> []" "list_all is_digit b"
    and c: "c \<noteq> []" "list_all is_digit c"
    and s: "s = [] \<or> \<not> is_digit (hd s)"
    and t: "list_all (\<lambda>x. \<not> is_digit x) (after_version s)"
    and rel: "prerelease v = []"
    and val: "valid_version v"
  shows "updateRange (p @ a @ ''.'' @ b @ ''.'' @ c @ s) (format v) = p @ format v @ after_version s"
    and "coerce (p @ format v @ after_version s) = Some v"
    and "\<not> isRangePrerelease (p @ format v @ after_version s)"
    and "updateRange (p @ format v @ after_version s) (format v) = p @ format v @ after_version s"
proof -
  let ?t = "after_version s"
  note ht = hd_no_digit [OF t]
  note f = format_release [OF rel]
  note dx = show_nat_digits [of "major v"] and dy = show_nat_digits [of "minor v"]
    and dz = show_nat_digits [of "patch v"]
  show "updateRange (p @ a @ ''.'' @ b @ ''.'' @ c @ s) (format v) = p @ format v @ ?t"
    using updateRange_one [OF p a b c s t] .
  have "coerce (p @ show_nat (major v) @ ''.'' @ show_nat (minor v) @ ''.''
                 @ show_nat (patch v) @ ?t) = Some (mk (major v) (minor v) (patch v) [])"
    using val by (intro coerce_run [OF p _ _ _ ht]) (simp_all add: valid_version_def)
  then show "coerce (p @ format v @ ?t) = Some v"
    using mk_release [OF rel] by (simp add: f)
  have "\<not> isRangePrerelease (p @ show_nat (major v) @ ''.'' @ show_nat (minor v) @ ''.''
                 @ show_nat (patch v) @ ?t)"
    using dx dy dz by (intro isRangePrerelease_one [OF p _ _ _ _ _ _ t match_suffix_after]) simp_all
  then show "\<not> isRangePrerelease (p @ format v @ ?t)"
    by (simp add: f)
  have t': "list_all (\<lambda>x. \<not> is_digit x) (after_version ?t)"
    using t by (simp add: after_version_idem)
  have "updateRange (p @ show_nat (major v) @ ''.'' @ show_nat (minor v) @ ''.''
                 @ show_nat (patch v) @ ?t) (format v) = p @ format v @ after_version ?t"
    using dx dy dz by (intro updateRange_one [OF p _ _ _ _ _ _ ht t']) simp_all
  then show "updateRange (p @ format v @ ?t) (format v) = p @ format v @ ?t"
    by (simp add: f after_version_idem)
qed

text \<open>
  C4, as amended. Let the old range hold one version: a digit-free text, three
  dot-separated numbers and a rest with no digit in what \<^verbatim>\<open>updateRange\<close> keeps of it;
  let the versions of the catalog and the latest tag be parsed versions (numbers up
  to \<^verbatim>\<open>MAX_SAFE_INTEGER\<close>). If \<^verbatim>\<open>main\<close> rewrites the old range to \<open>r'\<close>, then resolving
  \<open>r'\<close> against the same catalog with the same options returns the same version and
  \<^verbatim>\<open>main\<close> reports no change, in greatest mode when no prerelease passes the filter
  (release-only, or the prerelease flag off and the old range no prerelease), and
  in latest mode when the prerelease flag is off or release-only is on, the old
  range is no prerelease, and the latest tag is a release that passes the tag test.
\<close>

theorem resolving_again_is_no_change:
  assumes sv: "semvers opt = semvers_of patchArg minorArg (name d)"
    and rs: "rangeStr opt = p @ a @ ''.'' @ b @ ''.'' @ c @ s"
    and p: "list_all (\<lambda>x. \<not> is_digit x) p"
    and a: "a \<noteq> []" "list_all is_digit a"
    and b: "b \<noteq> []" "list_all is_digit b"
    and c: "c \<noteq> []" "list_all is_digit c"
    and s: "s = [] \<or> \<not> is_digit (hd s)"
    and t: "list_all (\<lambda>x. \<not> is_digit x) (after_version s)"
    and cat: "\<forall>w \<in> fst ` set (versions d). valid_version w"
    and lat: "valid_version (latest d)"
    and base: "coerce (rangeStr opt) = Some base"
    and mode: "(useGreatest opt
                  \<and> (useRel opt \<or> (\<not> usePre opt \<and> \<not> isRangePrerelease (rangeStr opt))))
               \<or> (\<not> useGreatest opt \<and> \<not> (usePre opt \<and> \<not> useRel opt)
                    \<and> \<not> isRangePrerelease (rangeStr opt)
                    \<and> \<not> tagOutsideSemvers opt base (latest d)
                    \<and> \<not> isVersionPrerelease (latest d))"
    and first: "resolve allowDowngrade d opt = Inr (Some r')"
  shows "\<exists>v. findNewVersion allowDowngrade d opt = Inr (Some (Ver v))
             \<and> r' = p @ format v @ after_version s
             \<and> findNewVersion allowDowngrade d (opt\<lparr>rangeStr := r'\<rparr>) = Inr (Some (Ver v))
             \<and> resolve allowDowngrade d (opt\<lparr>rangeStr := r'\<rparr>) = Inr None"
proof -
  let ?opt' = "opt\<lparr>rangeStr := r'\<rparr>"
  let ?t = "after_version s"
  have ce: "ceiling (semvers opt)" using sv semvers_of_ceiling by simp
  have star: "rangeStr opt \<noteq> ''*''" using base coerce_star by auto
  from first obtain nv where nv: "findNewVersion allowDowngrade d opt = Inr (Some nv)"
    and r': "r' = updateRange (rangeStr opt) (newver_string (Some nv))"
    by (auto simp: resolve_def Let_def split: sum.splits if_splits)
  obtain v where v: "nv = Ver v"
    using findNewVersion_wildcard [of allowDowngrade d opt] nv star by (cases nv) auto
  have fn: "findNewVersion allowDowngrade d opt = Inr (Some (Ver v))"
    using nv v by simp
  have rv: "prerelease v = [] \<and> valid_version v"
  proof (cases "useGreatest opt")
    case True
    with mode have f: "\<not> usePre_of opt \<or> useRel opt"
      by (auto simp: usePre_of_def)
    from findNewVersion_cases [OF fn] True
    have fv: "findVersion d (versions d) opt = Inr (Some v)" by simp
    then obtain td1 where
      l1: "findVersion_loop d opt (versions d) (Some base, 0) = Inr (Some v, td1)"
      using base by (auto simp: findVersion_def rangeToVersion_def split: sum.splits)
    have rb: "prerelease base = []" using coerce_release [OF base] .
    have kb: "kept opt base base" using rb by (simp add: kept_def within_def)
    have g1: "useGreatest opt \<or> \<not> has_time d" using True by simp
    from greatest_loop [OF ce g1 f kb rb l1]
    have 1: "prerelease v = []" and 2: "v = base \<or> v \<in> fst ` set (versions d)"
      by simp_all
    from 2 cat coerce_valid [OF base] have "valid_version v" by auto
    with 1 show ?thesis by simp
  next
    case False
    with mode have "v = latest d"
      using latest_mode_returns [OF _ False _ base _ _ fn] by simp
    with False mode lat show ?thesis
      by (simp add: isVersionPrerelease_def)
  qed
  then have rel: "prerelease v = []" and val: "valid_version v" by simp_all
  note rw = rewritten_range [OF p a b c s t rel val]
  have r'': "r' = p @ format v @ ?t"
    using r' v rw(1) rs by simp
  have b': "coerce r' = Some v" and np: "\<not> isRangePrerelease r'"
    and same: "updateRange r' (format v) = r'"
    using rw(2,3,4) r'' by simp_all
  have star': "r' \<noteq> ''*''" using b' coerce_star by auto
  have n: "findNewVersion allowDowngrade d ?opt' = Inr (Some (Ver v))"
  proof (cases "useGreatest opt")
    case True
    with mode have f: "\<not> usePre_of opt \<or> useRel opt"
      by (auto simp: usePre_of_def)
    from True mode np have f': "\<not> usePre_of ?opt' \<or> useRel opt"
      by (auto simp: usePre_of_def)
    from findNewVersion_cases [OF fn] True
    have fv: "findVersion d (versions d) opt = Inr (Some v)" by simp
    from greatest_fixed_point [OF ce base True f f' fv b']
    show ?thesis using True star' by (simp add: findNewVersion_def)
  next
    case False
    with mode have l: "v = latest d"
      using latest_mode_returns [OF _ False _ base _ _ fn] by simp
    from False mode have q: "\<not> (usePre opt \<and> \<not> useRel opt)" by simp
    from b' l have "coerce r' = Some (latest d)" by simp
    from latest_fixed_point [OF this np star' False q] l show ?thesis by simp
  qed
  have "resolve allowDowngrade d ?opt' = Inr None"
    using n same by (simp add: resolve_def)
  with fn r'' n show ?thesis by blast
qed

theorem resolving_again_is_no_change_witness:
  "semvers (plain_opts ''^2.0.0'') = semvers_of (Flag False) (Flag False) (name gulp)
   \<and> rangeStr (plain_opts ''^2.0.0'') = ''^'' @ ''2'' @ ''.'' @ ''0'' @ ''.'' @ ''0'' @ []
   \<and> list_all (\<lambda>x. \<not> is_digit x) ''^''
   \<and> list_all is_digit ''2'' \<and> list_all is_digit ''0''
   \<and> list_all (\<lambda>x. \<not> is_digit x) (after_version [])
   \<and> versions gulp = [(mk 2 0 1 [], Some 10), (mk 2 6 5 [], Some 20)]
   \<and> valid_version (mk 2 0 1 []) \<and> valid_version (mk 2 6 5 [])
   \<and> valid_version (latest gulp)
   \<and> coerce (rangeStr (plain_opts ''^2.0.0'')) = Some (mk 2 0 0 [])
   \<and> \<not> useGreatest (plain_opts ''^2.0.0'')
   \<and> \<not> usePre (plain_opts ''^2.0.0'')
   \<and> \<not> isRangePrerelease (rangeStr (plain_opts ''^2.0.0''))
   \<and> \<not> tagOutsideSemvers (plain_opts ''^2.0.0'') (mk 2 0 0 []) (latest gulp)
   \<and> \<not> isVersionPrerelease (latest gulp)
   \<and> resolve (Flag False) gulp (plain_opts ''^2.0.0'') = Inr (Some ''^2.6.5'')
   \<and> resolve (Flag False) gulp ((plain_opts ''^2.0.0'')\<lparr>rangeStr := ''^2.6.5''\<rparr>) = Inr None
   \<and> useGreatest ((plain_opts ''~2.0.0'')\<lparr>useGreatest := True\<rparr>)
   \<and> resolve (Flag False) gulp ((plain_opts ''~2.0.0'')\<lparr>useGreatest := True\<rparr>)
       = Inr (Some ''~2.6.5'')
   \<and> resolve (Flag False) gulp ((plain_opts ''~2.0.0'')\<lparr>useGreatest := True, rangeStr := ''~2.6.5''\<rparr>)
       = Inr None"
proof -
  let ?opt = "plain_opts ''^2.0.0''"
  let ?gopt = "(plain_opts ''~2.0.0'')\<lparr>useGreatest := True\<rparr>"
  have r: "rangeStr ?opt = ''^2.0.0''" by (simp add: plain_opts_def)
  have h1: "semvers ?opt = semvers_of (Flag False) (Flag False) (name gulp)"
    by (simp add: plain_opts_def semvers_of_def)
  have h2: "rangeStr ?opt = ''^'' @ ''2'' @ ''.'' @ ''0'' @ ''.'' @ ''0'' @ []"
    by (simp add: plain_opts_def)
  have h3: "list_all (\<lambda>x. \<not> is_digit x) ''^''" by (simp add: is_digit_def)
  have n2: "''2'' \<noteq> []" and d2: "list_all is_digit ''2''"
    and n0: "''0'' \<noteq> []" and d0: "list_all is_digit ''0''"
    by (simp_all add: is_digit_def)
  have h4: "[] = [] \<or> \<not> is_digit (hd [])" by simp
  have h5: "list_all (\<lambda>x. \<not> is_digit x) (after_version [])"
    by (simp add: after_version_def match_suffix_def)
  have h6: "\<forall>w \<in> fst ` set (versions gulp). valid_version w"
    by (simp add: gulp_def valid_version_def mk_def MAX_SAFE_INTEGER_def)
  have h7: "valid_version (latest gulp)"
    by (simp add: gulp_def valid_version_def mk_def MAX_SAFE_INTEGER_def)
  have h8: "coerce (rangeStr ?opt) = Some (mk 2 0 0 [])"
    by (simp add: r string_defs mk_def)
  have g: "\<not> useGreatest ?opt" and q: "\<not> usePre ?opt"
    by (simp_all add: plain_opts_def)
  have pr: "\<not> isRangePrerelease (rangeStr ?opt)"
    by (simp add: r string_defs)
  have tg: "\<not> tagOutsideSemvers ?opt (mk 2 0 0 []) (latest gulp)"
    by (simp add: tagOutsideSemvers_def strip_pre_def semver_defs gulp_def plain_opts_def)
  have lp: "\<not> isVersionPrerelease (latest gulp)"
    by (simp add: isVersionPrerelease_def gulp_def mk_def)
  have h9: "(useGreatest ?opt
                  \<and> (useRel ?opt \<or> (\<not> usePre ?opt \<and> \<not> isRangePrerelease (rangeStr ?opt))))
               \<or> (\<not> useGreatest ?opt \<and> \<not> (usePre ?opt \<and> \<not> useRel ?opt)
                    \<and> \<not> isRangePrerelease (rangeStr ?opt)
                    \<and> \<not> tagOutsideSemvers ?opt (mk 2 0 0 []) (latest gulp)
                    \<and> \<not> isVersionPrerelease (latest gulp))"
    using g q pr tg lp by simp
  have f: "findNewVersion (Flag False) gulp ?opt = Inr (Some (Ver (mk 2 6 5 [])))"
    using h8 pr unfolding r
    by (simp add: engine_defs semver_defs string_defs gulp_def plain_opts_def)
  have fm: "format (mk 2 6 5 []) = ''2.6.5''"
    by (simp add: string_defs mk_def show_nat.simps)
  have u0: "updateRange ''^2.0.0'' ''2.6.5'' = ''^2.6.5''"
    by (simp add: string_defs)
  have h10: "resolve (Flag False) gulp ?opt = Inr (Some ''^2.6.5'')"
    using f fm u0 by (simp add: resolve_def r)
  from resolving_again_is_no_change [OF h1 h2 h3 n2 d2 n0 d0 n0 d0 h4 h5 h6 h7 h8 h9 h10]
  have latest_mode: "resolve (Flag False) gulp (?opt\<lparr>rangeStr := ''^2.6.5''\<rparr>) = Inr None"
    by blast
  have gr: "rangeStr ?gopt = ''~2.0.0''" by (simp add: plain_opts_def)
  have g1: "semvers ?gopt = semvers_of (Flag False) (Flag False) (name gulp)"
    by (simp add: plain_opts_def semvers_of_def)
  have g2: "rangeStr ?gopt = ''~'' @ ''2'' @ ''.'' @ ''0'' @ ''.'' @ ''0'' @ []"
    by (simp add: plain_opts_def)
  have g3: "list_all (\<lambda>x. \<not> is_digit x) ''~''" by (simp add: is_digit_def)
  have g8: "coerce (rangeStr ?gopt) = Some (mk 2 0 0 [])"
    by (simp add: gr string_defs mk_def)
  have gg: "useGreatest ?gopt" and gq: "\<not> usePre ?gopt"
    by (simp_all add: plain_opts_def)
  have gp: "\<not> isRangePrerelease (rangeStr ?gopt)"
    by (simp add: gr string_defs)
  have g9: "(useGreatest ?gopt
                  \<and> (useRel ?gopt \<or> (\<not> usePre ?gopt \<and> \<not> isRangePrerelease (rangeStr ?gopt))))
               \<or> (\<not> useGreatest ?gopt \<and> \<not> (usePre ?gopt \<and> \<not> useRel ?gopt)
                    \<and> \<not> isRangePrerelease (rangeStr ?gopt)
                    \<and> \<not> tagOutsideSemvers ?gopt (mk 2 0 0 []) (latest gulp)
                    \<and> \<not> isVersionPrerelease (latest gulp))"
    using gg gq gp by simp
  have gf: "findNewVersion (Flag False) gulp ?gopt = Inr (Some (Ver (mk 2 6 5 [])))"
    using g8 gp unfolding gr
    by (simp add: engine_defs semver_defs string_defs gulp_def plain_opts_def)
  have gu: "updateRange ''~2.0.0'' ''2.6.5'' = ''~2.6.5''"
    by (simp add: string_defs)
  have g10: "resolve (Flag False) gulp ?gopt = Inr (Some ''~2.6.5'')"
    using gf fm gu by (simp add: resolve_def gr)
  from resolving_again_is_no_change [OF g1 g2 g3 n2 d2 n0 d0 n0 d0 h4 h5 h6 h7 g8 g9 g10]
  have "resolve (Flag False) gulp (?gopt\<lparr>rangeStr := ''~2.6.5''\<rparr>) = Inr None"
    by blast
  then have greatest_mode:
    "resolve (Flag False) gulp ((plain_opts ''~2.0.0'')\<lparr>useGreatest := True, rangeStr := ''~2.6.5''\<rparr>)
       = Inr None"
    by simp
  have vs: "versions gulp = [(mk 2 0 1 [], Some 10), (mk 2 6 5 [], Some 20)]"
    by (simp add: gulp_def)
  have v1: "valid_version (mk 2 0 1 [])" and v2: "valid_version (mk 2 6 5 [])"
    by (simp_all add: valid_version_def mk_def MAX_SAFE_INTEGER_def)
  show ?thesis
    using h1 h2 h3 d2 d0 h5 vs v1 v2 h7 h8 g q pr tg lp h10 latest_mode gg g10 greatest_mode
    by simp
qed

text \<open>
  C4 as stated fails. With \<^verbatim>\<open>3.0.0-2\<close> tagged latest and \<^verbatim>\<open>3.0.0-3\<close> published after it,
  the range \<^verbatim>\<open>^3.0.0\<close> resolves to \<^verbatim>\<open>^3.0.0-2\<close> in latest mode; the new range is a
  prerelease, so the second resolution takes prereleases into account and rewrites
  it to \<^verbatim>\<open>^3.0.0-3\<close>.
\<close>

theorem resolving_again_counterexample:
  "resolve (Flag False) svgstore_next (plain_opts ''^3.0.0'') = Inr (Some ''^3.0.0-2'')
   \<and> resolve (Flag False) svgstore_next (plain_opts ''^3.0.0-2'') = Inr (Some ''^3.0.0-3'')"
proof -
  have c: "coerce ''^3.0.0'' = Some (mk 3 0 0 [])"
    by (simp add: string_defs mk_def)
  have p: "\<not> isRangePrerelease ''^3.0.0''"
    by (simp add: string_defs)
  have a: "findNewVersion (Flag False) svgstore_next (plain_opts ''^3.0.0'')
       = Inr (Some (Ver (mk 3 0 0 [Num 2])))"
    using c p by (simp add: engine_defs semver_defs string_defs svgstore_next_def plain_opts_def)
  have c': "coerce ''^3.0.0-2'' = Some (mk 3 0 0 [])"
    by (simp add: string_defs mk_def)
  have p': "isRangePrerelease ''^3.0.0-2''"
    by (simp add: string_defs)
  have b: "findNewVersion (Flag False) svgstore_next (plain_opts ''^3.0.0-2'')
       = Inr (Some (Ver (mk 3 0 0 [Num 3])))"
    using c' p' by (simp add: engine_defs semver_defs string_defs svgstore_next_def plain_opts_def)
  have f2: "format (mk 3 0 0 [Num 2]) = ''3.0.0-2''" and f3: "format (mk 3 0 0 [Num 3]) = ''3.0.0-3''"
    by (simp_all add: string_defs mk_def show_nat.simps)
  have u: "updateRange ''^3.0.0'' ''3.0.0-2'' = ''^3.0.0-2''"
    by (simp add: string_defs)
  have u': "updateRange ''^3.0.0-2'' ''3.0.0-3'' = ''^3.0.0-3''"
    by (simp add: string_defs)
  show ?thesis
    using a b f2 f3 u u' by (simp add: resolve_def plain_opts_def)
qed

section \<open>What the manifest patcher replaces\<close>

lemma length_match_atoms: "match_atoms as s = Some r \<Longrightarrow> length r \<le> length s"
proof (induction as s rule: match_atoms.induct)
  case (1 s)
  then show ?case by simp
next
  case (2 c as s)
  then show ?case by (cases s) (auto split: if_splits)
next
  case (3 c as s)
  show ?case
  proof (cases s)
    case Nil
    with 3 show ?thesis by simp
  next
    case (Cons x xs)
    with 3 have "x = c" and m: "match_atoms as (dropWhile (\<lambda>y. y = c) xs) = Some r"
      by (auto split: if_splits)
    from 3(1) [OF Cons \<open>x = c\<close> m] have "length r \<le> length (dropWhile (\<lambda>y. y = c) xs)" .
    also have "\<dots> \<le> length xs" by (rule length_dropWhile_le)
    finally show ?thesis using Cons by simp
  qed
qed

lemma read_items_plain:
  "c \<notin> set metachars \<Longrightarrow> read_items (c # rest) = map_option ((#) (C c)) (read_items rest)"
  by (cases rest) (auto simp: metachars_def)

lemma read_items_escaped:
  "x \<in> set metachars \<Longrightarrow>
   read_items (backslash # x # rest) = map_option ((#) (C x)) (read_items rest)"
  by simp

lemma read_items_esc:
  "read_items (esc s @ r) = map_option ((@) (map C s)) (read_items r)"
proof (induction s)
  case Nil
  show ?case by (simp add: esc_def option.map_ident)
next
  case (Cons c s)
  have e: "esc (c # s) = (if c \<in> set metachars then [backslash, c] else [c]) @ esc s"
    by (simp add: esc_def)
  show ?case
  proof (cases "c \<in> set metachars")
    case True
    then show ?thesis
      using Cons.IH read_items_escaped [OF True, of "esc s @ r"]
      by (simp add: e option.map_comp comp_def)
  next
    case False
    then show ?thesis
      using Cons.IH read_items_plain [OF False, of "esc s @ r"]
      by (simp add: e option.map_comp comp_def)
  qed
qed

lemma atoms_plain:
  "r = [] \<or> hd r \<noteq> Q \<Longrightarrow> atoms (C c # r) = map_option ((#) (Lit c)) (atoms r)"
proof (cases r)
  case Nil
  then show ?thesis by simp
next
  case (Cons x xs)
  assume "r = [] \<or> hd r \<noteq> Q"
  with Cons show ?thesis by (cases x) auto
qed

lemma atoms_chars:
  "xs = [] \<or> hd xs \<noteq> Q \<Longrightarrow> atoms (map C s @ xs) = map_option ((@) (map Lit s)) (atoms xs)"
proof (induction s)
  case Nil
  show ?case by (simp add: option.map_ident)
next
  case (Cons c s)
  have "map C s @ xs = [] \<or> hd (map C s @ xs) \<noteq> Q"
    using Cons.prems by (cases s) auto
  from atoms_plain [OF this, of c] Cons.IH [OF Cons.prems]
  show ?case by (simp add: option.map_comp comp_def)
qed

lemma read_regex_source:
  "read_regex (pattern_source x) = Some (field_pattern (dname x) (old x))"
proof -
  have q: "CHR 0x22 \<notin> set metachars" "CHR '':'' \<notin> set metachars" "CHR '' '' \<notin> set metachars"
    by (simp_all add: metachars_def backslash_def)
  have 1: "read_items [CHR 0x22] = Some [C (CHR 0x22)]"
    using q by simp
  have 2: "read_items (esc (old x) @ [CHR 0x22]) = Some (map C (old x) @ [C (CHR 0x22)])"
    using read_items_esc [of "old x" "[CHR 0x22]"] 1 by simp
  have 3: "read_items (CHR 0x22 # CHR '':'' # CHR '' '' # CHR ''+'' # CHR 0x22 # esc (old x) @ [CHR 0x22])
        = Some ([C (CHR 0x22), C (CHR '':''), C (CHR '' ''), Q, C (CHR 0x22)]
                @ map C (old x) @ [C (CHR 0x22)])"
    using 2 q by (simp add: read_items_plain backslash_def)
  have 4: "read_items (pattern_source x)
        = Some (C (CHR 0x22) # map C (dname x)
                @ [C (CHR 0x22), C (CHR '':''), C (CHR '' ''), Q, C (CHR 0x22)]
                @ map C (old x) @ [C (CHR 0x22)])"
    using read_items_esc [of "dname x"
        "CHR 0x22 # CHR '':'' # CHR '' '' # CHR ''+'' # CHR 0x22 # esc (old x) @ [CHR 0x22]"]
      3 read_items_plain [OF q(1)]
    by (simp add: pattern_source_def)
  have 5: "atoms (map C (old x) @ [C (CHR 0x22)]) = Some (map Lit (old x) @ [Lit (CHR 0x22)])"
    using atoms_chars [of "[C (CHR 0x22)]" "old x"] by simp
  have 6: "atoms ([C (CHR 0x22), C (CHR '':''), C (CHR '' ''), Q, C (CHR 0x22)]
                @ map C (old x) @ [C (CHR 0x22)])
        = Some ([Lit (CHR 0x22), Lit (CHR '':''), Plus (CHR '' ''), Lit (CHR 0x22)]
                @ map Lit (old x) @ [Lit (CHR 0x22)])"
    using 5 atoms_plain [of "map C (old x) @ [C (CHR 0x22)]" "CHR 0x22"]
    by (cases "old x") auto
  have 7: "atoms (map C (dname x)
                @ [C (CHR 0x22), C (CHR '':''), C (CHR '' ''), Q, C (CHR 0x22)]
                @ map C (old x) @ [C (CHR 0x22)])
        = Some (map Lit (dname x)
                @ [Lit (CHR 0x22), Lit (CHR '':''), Plus (CHR '' ''), Lit (CHR 0x22)]
                @ map Lit (old x) @ [Lit (CHR 0x22)])"
    using atoms_chars [of "[C (CHR 0x22), C (CHR '':''), C (CHR '' ''), Q, C (CHR 0x22)]
                @ map C (old x) @ [C (CHR 0x22)]" "dname x"] 6
    by simp
  have 8: "atoms (C (CHR 0x22) # map C (dname x)
                @ [C (CHR 0x22), C (CHR '':''), C (CHR '' ''), Q, C (CHR 0x22)]
                @ map C (old x) @ [C (CHR 0x22)])
        = Some (field_pattern (dname x) (old x))"
    using 7 atoms_plain [of "map C (dname x)
                @ [C (CHR 0x22), C (CHR '':''), C (CHR '' ''), Q, C (CHR 0x22)]
                @ map C (old x) @ [C (CHR 0x22)]" "CHR 0x22"]
    by (cases "dname x") (auto simp: field_pattern_def)
  show ?thesis
    using 4 8 by (simp add: read_regex_def)
qed

lemma match_lits: "match_atoms (map Lit s @ as) (s @ t) = match_atoms as t"
  by (induction s) auto

lemma dropWhile_spaces:
  "dropWhile (\<lambda>y. y = CHR '' '') (replicate k (CHR '' '') @ CHR 0x22 # t) = CHR 0x22 # t"
  by (induction k) auto

lemma match_field:
  "match_atoms (field_pattern n ov) (field_text n k ov @ b) = Some b"
proof -
  have 1: "match_atoms (map Lit ov @ [Lit (CHR 0x22)]) (ov @ CHR 0x22 # b) = Some b"
    using match_lits [of ov "[Lit (CHR 0x22)]" "CHR 0x22 # b"] by simp
  have 2: "match_atoms ([Lit (CHR 0x22), Lit (CHR '':''), Plus (CHR '' ''), Lit (CHR 0x22)]
              @ map Lit ov @ [Lit (CHR 0x22)])
            ([CHR 0x22, CHR '':''] @ replicate (Suc k) (CHR '' '') @ CHR 0x22 # ov @ CHR 0x22 # b)
          = Some b"
    using 1 dropWhile_spaces [of k "ov @ CHR 0x22 # b"] by simp
  have "match_atoms (map Lit n @ [Lit (CHR 0x22), Lit (CHR '':''), Plus (CHR '' ''), Lit (CHR 0x22)]
              @ map Lit ov @ [Lit (CHR 0x22)])
            (n @ [CHR 0x22, CHR '':''] @ replicate (Suc k) (CHR '' '') @ CHR 0x22 # ov @ CHR 0x22 # b)
          = Some b"
    using 2 match_lits [of n] by simp
  then show ?thesis
    by (simp add: field_pattern_def field_text_def)
qed

lemma expand_plain: "CHR ''$'' \<notin> set t \<Longrightarrow> expand t matched before after = t"
  by (induction t matched before after rule: expand.induct) auto

lemma replacement_plain:
  assumes "CHR ''$'' \<notin> set (dname x)" and "CHR ''$'' \<notin> set (new x)"
  shows "expand (replacement x) matched before after = replacement x"
proof -
  have "CHR ''$'' \<notin> set (replacement x)"
    using assms by (simp add: replacement_def)
  then show ?thesis
    by (rule expand_plain)
qed

lemma regex_replace_before:
  "CHR ''$'' \<notin> set rep \<Longrightarrow> regex_replace pat rep before s = regex_replace pat rep [] s"
proof (induction "length s" arbitrary: s before rule: less_induct)
  case less
  note plain = less.prems
  show ?case
  proof (cases s)
    case Nil
    then show ?thesis
      using plain by (simp add: expand_plain split: option.splits)
  next
    case (Cons c cs)
    have "length cs < length s"
      using Cons by simp
    note cs = less.hyps [OF this plain]
    show ?thesis
    proof (cases "match_atoms pat (c # cs)")
      case None
      then show ?thesis
        using Cons cs [of "before @ [c]"] cs [of "[c]"] by simp
    next
      case (Some rest)
      show ?thesis
      proof (cases "length rest < length (c # cs)")
        case True
        then have "length rest < length s"
          using Cons by simp
        note r = less.hyps [OF this plain]
        show ?thesis
          using Cons Some True plain
            r [of "before @ take (length (c # cs) - length rest) (c # cs)"]
            r [of "take (length (c # cs) - length rest) (c # cs)"]
          by (simp add: expand_plain Let_def)
      next
        case False
        then show ?thesis
          using Cons Some plain cs [of "before @ [c]"] cs [of "[c]"]
          by (simp add: expand_plain)
      qed
    qed
  qed
qed

lemma regex_replace_prefix:
  "no_match_before pat a rest \<Longrightarrow>
     regex_replace pat rep before (a @ rest) = a @ regex_replace pat rep (before @ a) rest"
  by (induction a arbitrary: before) auto

lemma regex_replace_unchanged: "\<not> has_match pat s \<Longrightarrow> regex_replace pat rep before s = s"
  by (induction s arbitrary: before) auto

lemma updatePackageJson_unchanged:
  "\<forall>y \<in> set ys. \<not> has_match (field_pattern (dname y) (old y)) c \<Longrightarrow> updatePackageJson ys c = c"
  by (induction ys) (simp_all add: read_regex_source regex_replace_unchanged)

text \<open>
  C7, as amended. The patcher takes the resolved dependencies in turn. For a
  dependency whose name and new range hold no dollar sign, it replaces an occurrence
  of the field text (the quoted name, a colon, one or more spaces, the quoted old
  range) by the quoted name, a colon, one space and the quoted new range, wherever in
  the manifest it stands: the section of the dependency (\<open>dtype\<close>) plays no part. The
  text before the first occurrence is kept, the text after it is patched in the same
  way, and the result is handed to the dependencies that follow. A text in which no
  dependency's field occurs is returned unchanged.
\<close>

theorem patcher_replaces_everywhere:
  assumes "CHR ''$'' \<notin> set (dname x)" and "CHR ''$'' \<notin> set (new x)"
    and "no_match_before (field_pattern (dname x) (old x)) a (field_text (dname x) k (old x) @ b)"
    and "\<forall>y \<in> set ys. \<not> has_match (field_pattern (dname y) (old y)) c"
  shows "updatePackageJson (x # xs) (a @ field_text (dname x) k (old x) @ b)
           = updatePackageJson xs (a @ replacement x @ updatePackageJson [x] b)
         \<and> updatePackageJson ys c = c"
proof -
  let ?pat = "field_pattern (dname x) (old x)"
  let ?f = "field_text (dname x) k (old x)"
  let ?r = "replacement x"
  have plain: "CHR ''$'' \<notin> set ?r"
    using assms(1,2) by (simp add: replacement_def)
  obtain y zs where f: "?f @ b = y # zs"
    by (simp add: field_text_def)
  have m: "match_atoms ?pat (y # zs) = Some b"
    using match_field [of "dname x" "old x" k b] f by simp
  have "length b < length (?f @ b)" by (simp add: field_text_def)
  then have l: "length b < length (y # zs)" using f by simp
  have "regex_replace ?pat ?r [] (a @ ?f @ b) = a @ regex_replace ?pat ?r a (y # zs)"
    using regex_replace_prefix [OF assms(3), of ?r "[]"] f by simp
  also have "regex_replace ?pat ?r a (y # zs)
      = ?r @ regex_replace ?pat ?r (a @ take (length (y # zs) - length b) (y # zs)) b"
    using m l by (simp add: expand_plain [OF plain] Let_def)
  also have "regex_replace ?pat ?r (a @ take (length (y # zs) - length b) (y # zs)) b
      = regex_replace ?pat ?r [] b"
    by (rule regex_replace_before [OF plain])
  finally have "regex_replace ?pat ?r [] (a @ ?f @ b) = a @ ?r @ regex_replace ?pat ?r [] b" .
  then have 1: "updatePackageJson (x # xs) (a @ ?f @ b)
           = updatePackageJson xs (a @ ?r @ updatePackageJson [x] b)"
    by (simp add: read_regex_source)
  have 2: "updatePackageJson ys c = c"
    using assms(4) by (rule updatePackageJson_unchanged)
  show ?thesis
    using 1 2 by simp
qed

theorem patcher_replaces_everywhere_witness:
  \<open>CHR ''$'' \<notin> set (dname foo_dep) \<and> CHR ''$'' \<notin> set (new foo_dep)
   \<and> no_match_before (field_pattern (dname foo_dep) (old foo_dep)) ''{"dependencies": {''
      (field_text (dname foo_dep) 0 (old foo_dep) @ ''}, "devDependencies": {"bar":  "^0.1.0"}}'')
   \<and> \<not> has_match (field_pattern (dname foo_dep) (old foo_dep)) ''{"name": "x"}''
   \<and> \<not> has_match (field_pattern (dname bar_dep) (old bar_dep)) ''{"name": "x"}''
   \<and> ''{"dependencies": {'' @ field_text (dname foo_dep) 0 (old foo_dep)
         @ ''}, "devDependencies": {"bar":  "^0.1.0"}}''
       = ''{"dependencies": {"foo": "1.0.0"}, "devDependencies": {"bar":  "^0.1.0"}}''
   \<and> updatePackageJson [foo_dep, bar_dep]
        ''{"dependencies": {"foo": "1.0.0"}, "devDependencies": {"bar":  "^0.1.0"}}''
       = ''{"dependencies": {"foo": "2.0.0"}, "devDependencies": {"bar": "^0.2.0"}}''
   \<and> updatePackageJson [foo_dep, bar_dep] ''{"name": "x"}'' = ''{"name": "x"}''\<close>
proof -
  have d: "CHR ''$'' \<notin> set (dname foo_dep)" "CHR ''$'' \<notin> set (new foo_dep)"
    by (simp_all add: foo_dep_def)
  have pf: "field_pattern (dname foo_dep) (old foo_dep)
      = [Lit (CHR 0x22), Lit (CHR ''f''), Lit (CHR ''o''), Lit (CHR ''o''), Lit (CHR 0x22),
         Lit (CHR '':''), Plus (CHR '' ''), Lit (CHR 0x22), Lit (CHR ''1''), Lit (CHR ''.''),
         Lit (CHR ''0''), Lit (CHR ''.''), Lit (CHR ''0''), Lit (CHR 0x22)]"
    by (simp add: field_pattern_def foo_dep_def)
  have pb: "field_pattern (dname bar_dep) (old bar_dep)
      = [Lit (CHR 0x22), Lit (CHR ''b''), Lit (CHR ''a''), Lit (CHR ''r''), Lit (CHR 0x22),
         Lit (CHR '':''), Plus (CHR '' ''), Lit (CHR 0x22), Lit (CHR ''^''), Lit (CHR ''0''),
         Lit (CHR ''.''), Lit (CHR ''1''), Lit (CHR ''.''), Lit (CHR ''0''), Lit (CHR 0x22)]"
    by (simp add: field_pattern_def bar_dep_def)
  have t: \<open>''{"dependencies": {'' @ field_text (dname foo_dep) 0 (old foo_dep)
         @ ''}, "devDependencies": {"bar":  "^0.1.0"}}''
       = ''{"dependencies": {"foo": "1.0.0"}, "devDependencies": {"bar":  "^0.1.0"}}''\<close>
    by (simp add: field_text_def foo_dep_def)
  have h1: \<open>no_match_before (field_pattern (dname foo_dep) (old foo_dep)) ''{"dependencies": {''
      (field_text (dname foo_dep) 0 (old foo_dep) @ ''}, "devDependencies": {"bar":  "^0.1.0"}}'')\<close>
    unfolding pf by (simp add: field_text_def foo_dep_def)
  have h2f: \<open>\<not> has_match (field_pattern (dname foo_dep) (old foo_dep)) ''{"name": "x"}''\<close>
    unfolding pf by simp
  have h2b: \<open>\<not> has_match (field_pattern (dname bar_dep) (old bar_dep)) ''{"name": "x"}''\<close>
    unfolding pb by simp
  have h2: \<open>\<forall>y \<in> set [foo_dep, bar_dep]. \<not> has_match (field_pattern (dname y) (old y)) ''{"name": "x"}''\<close>
    using h2f h2b by simp
  have rf: \<open>replacement foo_dep = ''"foo": "2.0.0"''\<close>
    by (simp add: replacement_def foo_dep_def)
  have rb: \<open>replacement bar_dep = ''"bar": "^0.2.0"''\<close>
    by (simp add: replacement_def bar_dep_def)
  have tail: \<open>updatePackageJson [foo_dep] ''}, "devDependencies": {"bar":  "^0.1.0"}}''
       = ''}, "devDependencies": {"bar":  "^0.1.0"}}''\<close>
    by (simp add: read_regex_source pf rf)
  have rest: \<open>updatePackageJson [bar_dep]
        ''{"dependencies": {"foo": "2.0.0"}, "devDependencies": {"bar":  "^0.1.0"}}''
       = ''{"dependencies": {"foo": "2.0.0"}, "devDependencies": {"bar": "^0.2.0"}}''\<close>
    by (simp add: read_regex_source pb rb)
  from patcher_replaces_everywhere [OF d h1 h2, of "[bar_dep]"]
  have \<open>updatePackageJson [foo_dep, bar_dep]
        ''{"dependencies": {"foo": "1.0.0"}, "devDependencies": {"bar":  "^0.1.0"}}''
       = ''{"dependencies": {"foo": "2.0.0"}, "devDependencies": {"bar": "^0.2.0"}}''
     \<and> updatePackageJson [foo_dep, bar_dep] ''{"name": "x"}'' = ''{"name": "x"}''\<close>
    unfolding t tail rf using rest by simp
  then show ?thesis
    using d h1 h2f h2b t by simp
qed

text \<open>
  C7 as stated fails: the pattern is applied to the whole text with the \<^verbatim>\<open>g\<close> flag.
  With \<^verbatim>\<open>foo\<close> resolved in \<^verbatim>\<open>dependencies\<close> only, the same pair under \<^verbatim>\<open>resolutions\<close>
  is rewritten too.
\<close>

theorem patcher_counterexample:
  \<open>updatePackageJson [foo_dep]
      ''{"dependencies": {"foo": "1.0.0"}, "resolutions": {"foo": "1.0.0"}}''
     = ''{"dependencies": {"foo": "2.0.0"}, "resolutions": {"foo": "2.0.0"}}''
   \<and> updatePackageJson [foo_dep]
      ''{"dependencies": {"foo": "1.0.0"}, "resolutions": {"foo": "1.0.0"}}''
     \<noteq> ''{"dependencies": {"foo": "2.0.0"}, "resolutions": {"foo": "1.0.0"}}''\<close>
proof -
  have p: "field_pattern (dname foo_dep) (old foo_dep)
      = [Lit (CHR 0x22), Lit (CHR ''f''), Lit (CHR ''o''), Lit (CHR ''o''), Lit (CHR 0x22),
         Lit (CHR '':''), Plus (CHR '' ''), Lit (CHR 0x22), Lit (CHR ''1''), Lit (CHR ''.''),
         Lit (CHR ''0''), Lit (CHR ''.''), Lit (CHR ''0''), Lit (CHR 0x22)]"
    by (simp add: field_pattern_def foo_dep_def)
  have r: \<open>replacement foo_dep = ''"foo": "2.0.0"''\<close>
    by (simp add: replacement_def foo_dep_def)
  show ?thesis
    by (simp add: read_regex_source p r)
qed

text \<open>
  The replacement is a replacement pattern: in a name or a new range, \<^verbatim>\<open>$&\<close> stands
  for the matched text. For the name \<^verbatim>\<open>$&\<close> the patched field holds the old field
  inside the quotes of the name.
\<close>

lemma patcher_dollar_name:
  \<open>updatePackageJson [dollar_dep] ''{"$&": "1.0.0"}'' = ''{""$&": "1.0.0"": "2.0.0"}''\<close>
proof -
  have p: "field_pattern (dname dollar_dep) (old dollar_dep)
      = [Lit (CHR 0x22), Lit (CHR ''$''), Lit (CHR ''&''), Lit (CHR 0x22),
         Lit (CHR '':''), Plus (CHR '' ''), Lit (CHR 0x22), Lit (CHR ''1''), Lit (CHR ''.''),
         Lit (CHR ''0''), Lit (CHR ''.''), Lit (CHR ''0''), Lit (CHR 0x22)]"
    by (simp add: field_pattern_def dollar_dep_def)
  have r: \<open>replacement dollar_dep = ''"$&": "2.0.0"''\<close>
    by (simp add: replacement_def dollar_dep_def)
  show ?thesis
    by (simp add: read_regex_source p r)
qed

section \<open>A failed fetch\<close>

lemma get_throws:
  assumes "refused (net defaultRegistry n)" "\<not> succeeded (net registry n)"
  shows "isl (get net n type registry)"
  using assms
  by (auto simp: get_def get_retry_def refused_def succeeded_def split: outcome.splits)

lemma promise_all_rejects: "p \<in> set ps \<Longrightarrow> isl p \<Longrightarrow> isl (promise_all ps)"
proof (induction ps rule: promise_all.induct)
  case 1
  then show ?case by simp
next
  case (2 e ps)
  then show ?case by simp
next
  case (3 x ps)
  then show ?case by (auto split: sum.splits)
qed

text \<open>
  C8, as amended. When the catalog of one dependency cannot be fetched, that is, the
  request to its registry does not succeed and the default registry, asked first or
  in the one retry, rejects the request or answers with an error status, \<^verbatim>\<open>get\<close>
  throws, \<^verbatim>\<open>Promise.all\<close> rejects and \<^verbatim>\<open>main\<close> ends in an error: no dependency is
  reported, whatever the other fetches gave.
\<close>

theorem failed_fetch_aborts_run:
  assumes "((type, n), oldRange) \<in> set ds"
    and "\<not> succeeded (net (registry_of n) n)"
    and "refused (net defaultRegistry n)"
  shows "isl (main net registry_of fl ds)"
proof -
  let ?f = "\<lambda>((type, n), oldRange). get net n type (registry_of n)"
  have "isl (get net n type (registry_of n))"
    using get_throws [where net = net and n = n and registry = "registry_of n"] assms(2,3)
    by simp
  moreover have "get net n type (registry_of n) \<in> set (map ?f ds)"
    using assms(1) by force
  ultimately have "isl (promise_all (map ?f ds))"
    using promise_all_rejects by blast
  then show ?thesis
    by (auto simp: main_def split: sum.splits)
qed

theorem failed_fetch_aborts_run_witness:
  "((''dependencies'', ''noty''), ''3.1.0'') \<in> set two_deps
   \<and> \<not> succeeded (one_down defaultRegistry ''noty'')
   \<and> refused (one_down defaultRegistry ''noty'')
   \<and> isl (main one_down (\<lambda>n. defaultRegistry) no_flags two_deps)"
proof -
  have h1: "((''dependencies'', ''noty''), ''3.1.0'') \<in> set two_deps"
    by (simp add: two_deps_def)
  have h2: "\<not> succeeded (one_down ((\<lambda>n. defaultRegistry) ''noty'') ''noty'')"
    by (simp add: succeeded_def one_down_def)
  have h3: "refused (one_down defaultRegistry ''noty'')"
    by (simp add: refused_def one_down_def)
  have "isl (main one_down (\<lambda>n. defaultRegistry) no_flags two_deps)"
    using failed_fetch_aborts_run [where net = one_down and registry_of = "\<lambda>n. defaultRegistry"
        and n = "''noty''" and ds = two_deps and type = "''dependencies''"
        and oldRange = "''3.1.0''" and fl = no_flags] h1 h2 h3
    by simp
  then show ?thesis
    using h1 h2 h3 by simp
qed

text \<open>
  C8 as stated fails: with two dependencies on the default registry, the first
  fetched and resolvable to \<^verbatim>\<open>2.6.5\<close>, the second with a rejected request, the run ends
  in the error and the first dependency is not reported.
\<close>

theorem failed_fetch_counterexample:
  "get one_down ''gulp-sourcemaps'' ''dependencies'' defaultRegistry
     = Inr (Some (Package gulp, ''dependencies'', defaultRegistry))
   \<and> main_step no_flags two_deps (Some (Package gulp, ''dependencies'', defaultRegistry))
     = Inr ((''dependencies'', ''gulp-sourcemaps''), Some ''2.6.5'')
   \<and> get one_down ''noty'' ''dependencies'' defaultRegistry = Inl FetchError
   \<and> main one_down (\<lambda>n. defaultRegistry) no_flags two_deps = Inl FetchError"
proof -
  have g1: "get one_down ''gulp-sourcemaps'' ''dependencies'' defaultRegistry
     = Inr (Some (Package gulp, ''dependencies'', defaultRegistry))"
    by (simp add: get_def one_down_def)
  have g2: "get one_down ''noty'' ''dependencies'' defaultRegistry = Inl FetchError"
    by (simp add: get_def one_down_def)
  have c: "coerce ''2.0.0'' = Some (mk 2 0 0 [])"
    by (simp add: string_defs mk_def)
  have p: "\<not> isRangePrerelease ''2.0.0''"
    by (simp add: string_defs)
  have f: "findNewVersion (Flag False) gulp (plain_opts ''2.0.0'') = Inr (Some (Ver (mk 2 6 5 [])))"
    using c p by (simp add: engine_defs semver_defs string_defs gulp_def plain_opts_def)
  have fm: "format (mk 2 6 5 []) = ''2.6.5''"
    by (simp add: string_defs mk_def show_nat.simps)
  have u: "updateRange ''2.0.0'' ''2.6.5'' = ''2.6.5''"
    by (simp add: string_defs)
  have r: "resolve (Flag False) gulp (plain_opts ''2.0.0'') = Inr (Some ''2.6.5'')"
    using f fm u by (simp add: resolve_def plain_opts_def)
  have n: "name gulp = ''gulp-sourcemaps''" by (simp add: gulp_def)
  have s: "main_step no_flags two_deps (Some (Package gulp, ''dependencies'', defaultRegistry))
     = Inr ((''dependencies'', ''gulp-sourcemaps''), Some ''2.6.5'')"
    using r by (simp add: main_step_def n no_flags_def two_deps_def semvers_of_def plain_opts_def)
  have m: "main one_down (\<lambda>n. defaultRegistry) no_flags two_deps = Inl FetchError"
    using g1 g2 by (simp add: main_def two_deps_def)
  show ?thesis
    using g1 s g2 m by simp
qed

end
